theory Spec2Isabelle
  imports Complex_Main "HOL-Library.Sublist" "HOL-Library.AList"
begin

chapter \<open>The model\<close>

section \<open>HighPerformanceJobQueue: the bounded worker pool of one batch\<close>

text \<open>
  \<^verbatim>\<open>HighPerformanceJobQueue\<close> (Apps_script.py, lines 205-311) holds a FIFO of jobs
  (\<^verbatim>\<open>queue.Queue\<close>), a \<^verbatim>\<open>ThreadPoolExecutor\<close> and the dictionary \<^verbatim>\<open>active_futures\<close>
  from futures to jobs. Futures are modelled by fresh natural numbers, the dictionary by
  an association list in insertion order. Two fields of the record are not fields of the
  class: \<open>executor_shutdown\<close> is the state of the executor (after \<^verbatim>\<open>shutdown\<close> the call
  \<^verbatim>\<open>executor.submit\<close> raises RuntimeError), and \<open>submitted\<close> logs, in order, every job that
  \<^verbatim>\<open>executor.submit(worker_function, job)\<close> accepted. Which futures are done at a poll,
  and what they return, is decided by the worker threads: both are arguments of the poll.
\<close>

record 'j job_queue_manager =
  job_queue :: "'j list"
  active_futures :: "(nat \<times> 'j) list"
  completed_jobs_count :: nat
  total_jobs_submitted_to_q :: nat
  is_running :: bool
  executor_shutdown :: bool
  next_future :: nat
  submitted :: "'j list"

datatype 'r future_outcome = Returned 'r | Raised string

type_synonym ('j, 'r) completed_result = "'j \<times> 'r option \<times> string option"

definition new_job_queue :: "'j job_queue_manager" where
  "new_job_queue =
     \<lparr>job_queue = [], active_futures = [], completed_jobs_count = 0,
      total_jobs_submitted_to_q = 0, is_running = False, executor_shutdown = False,
      next_future = 0, submitted = []\<rparr>"

definition add_job :: "'j \<Rightarrow> 'j job_queue_manager \<Rightarrow> 'j job_queue_manager" where
  "add_job job_data s =
     s\<lparr>job_queue := job_queue s @ [job_data],
       total_jobs_submitted_to_q := total_jobs_submitted_to_q s + 1\<rparr>"

text \<open>\<^verbatim>\<open>executor.submit\<close>: \<open>None\<close> is the RuntimeError of an executor that was shut down.\<close>

definition executor_submit ::
  "'j \<Rightarrow> 'j job_queue_manager \<Rightarrow> (nat \<times> 'j job_queue_manager) option" where
  "executor_submit job s =
     (if executor_shutdown s then None
      else Some (next_future s,
                 s\<lparr>next_future := next_future s + 1, submitted := submitted s @ [job]\<rparr>))"

text \<open>
  The body of the \<^verbatim>\<open>for _ in range(min(max_concurrent_tasks, qsize))\<close> loop of
  \<^verbatim>\<open>start_processing\<close>. On RuntimeError the job taken from the FIFO is dropped (the
  re-queue is commented out in the source) and the loop breaks.
\<close>

fun start_loop :: "nat \<Rightarrow> 'j job_queue_manager \<Rightarrow> 'j job_queue_manager" where
  "start_loop 0 s = s"
| "start_loop (Suc n) s =
     (case job_queue s of
        [] \<Rightarrow> start_loop n s
      | job # rest \<Rightarrow>
          if is_running s then
            (case executor_submit job (s\<lparr>job_queue := rest\<rparr>) of
               None \<Rightarrow> s\<lparr>job_queue := rest\<rparr>
             | Some (future, s') \<Rightarrow>
                 start_loop n (s'\<lparr>active_futures := active_futures s' @ [(future, job)]\<rparr>))
          else start_loop n s)"

definition start_processing :: "nat \<Rightarrow> 'j job_queue_manager \<Rightarrow> 'j job_queue_manager" where
  "start_processing max_concurrent_tasks s =
     start_loop (min max_concurrent_tasks (length (job_queue s))) (s\<lparr>is_running := True\<rparr>)"

text \<open>
  The second loop of \<^verbatim>\<open>get_completed_jobs\<close>, over the futures that were done when the
  call began. A future no longer in the dictionary is skipped. On RuntimeError the job
  taken from the FIFO is put back (at the tail, as \<^verbatim>\<open>Queue.put\<close> does) and the loop breaks.
\<close>

fun drain_done ::
  "(nat \<Rightarrow> 'r future_outcome) \<Rightarrow> nat list \<Rightarrow> ('j, 'r) completed_result list \<Rightarrow>
   'j job_queue_manager \<Rightarrow> ('j, 'r) completed_result list \<times> 'j job_queue_manager" where
  "drain_done result [] completed_results s = (completed_results, s)"
| "drain_done result (future # futures) completed_results s =
     (case map_of (active_futures s) future of
        None \<Rightarrow> drain_done result futures completed_results s
      | Some job \<Rightarrow>
          let entry = (case result future of
                         Returned r \<Rightarrow> (job, Some r, None)
                       | Raised e \<Rightarrow> (job, None, Some e));
              s1 = s\<lparr>active_futures := filter (\<lambda>p. fst p \<noteq> future) (active_futures s),
                     completed_jobs_count := completed_jobs_count s + 1\<rparr>
          in (case job_queue s1 of
                [] \<Rightarrow> drain_done result futures (completed_results @ [entry]) s1
              | next_job # rest \<Rightarrow>
                  if is_running s1 then
                    (case executor_submit next_job (s1\<lparr>job_queue := rest\<rparr>) of
                       None \<Rightarrow> (completed_results @ [entry], s1\<lparr>job_queue := rest @ [next_job]\<rparr>)
                     | Some (new_future, s2) \<Rightarrow>
                         drain_done result futures (completed_results @ [entry])
                           (s2\<lparr>active_futures := active_futures s2 @ [(new_future, next_job)]\<rparr>))
                  else drain_done result futures (completed_results @ [entry]) s1))"

definition get_completed_jobs ::
  "(nat \<Rightarrow> bool) \<Rightarrow> (nat \<Rightarrow> 'r future_outcome) \<Rightarrow> 'j job_queue_manager \<Rightarrow>
   ('j, 'r) completed_result list \<times> 'j job_queue_manager" where
  "get_completed_jobs done result s =
     drain_done result (filter done (map fst (active_futures s))) [] s"

definition get_progress :: "'j job_queue_manager \<Rightarrow> nat \<times> nat \<times> nat" where
  "get_progress s =
     (if total_jobs_submitted_to_q s = 0 then (0, 0, 0)
      else (completed_jobs_count s, length (active_futures s), total_jobs_submitted_to_q s))"

text \<open>
  \<^verbatim>\<open>stop\<close>: no further admission, and the executor is shut down. Cancelling a future
  changes the future, not the dictionary; a cancelled future is done at the next poll.
\<close>

definition stop :: "'j job_queue_manager \<Rightarrow> 'j job_queue_manager" where
  "stop s = s\<lparr>is_running := False, executor_shutdown := True\<rparr>"

definition is_finished :: "'j job_queue_manager \<Rightarrow> bool" where
  "is_finished s =
     (job_queue s = [] \<and> length (active_futures s) = 0 \<and>
      completed_jobs_count s \<ge> total_jobs_submitted_to_q s)"

text \<open>The calls a client can make on one instance, and a run of them.\<close>

datatype ('j, 'r) queue_call =
    AddJob 'j
  | StartProcessing nat
  | GetCompletedJobs "nat \<Rightarrow> bool" "nat \<Rightarrow> 'r future_outcome"
  | StopQueue

fun apply_call :: "('j, 'r) queue_call \<Rightarrow> 'j job_queue_manager \<Rightarrow> 'j job_queue_manager" where
  "apply_call (AddJob job) s = add_job job s"
| "apply_call (StartProcessing m) s = start_processing m s"
| "apply_call (GetCompletedJobs done result) s = snd (get_completed_jobs done result s)"
| "apply_call StopQueue s = stop s"

fun queue_calls ::
  "('j, 'r) queue_call list \<Rightarrow> 'j job_queue_manager \<Rightarrow> 'j job_queue_manager" where
  "queue_calls [] s = s"
| "queue_calls (c # cs) s = queue_calls cs (apply_call c s)"

text \<open>A run that calls \<^verbatim>\<open>start_processing\<close> once is a run without it, the call, and a run without it.\<close>

fun is_start_call :: "('j, 'r) queue_call \<Rightarrow> bool" where
  "is_start_call (StartProcessing m) = True"
| "is_start_call c = False"

definition no_start_call :: "('j, 'r) queue_call list \<Rightarrow> bool" where
  "no_start_call cs = (filter is_start_call cs = [])"

section \<open>Accounting of the job queue\<close>

text \<open>
  Every job counted by \<^verbatim>\<open>add_job\<close> is in the FIFO, in the pool, completed, or was dropped
  by a failed submission: the three counts never exceed the total.
\<close>

definition accounted :: "'j job_queue_manager \<Rightarrow> bool" where
  "accounted s =
     (completed_jobs_count s + length (active_futures s) + length (job_queue s)
        \<le> total_jobs_submitted_to_q s)"

section \<open>OptimizedEmailSenderThread: one batch on its own job queue\<close>

text \<open>
  \<^verbatim>\<open>OptimizedEmailSenderThread.run\<close> (lines 564-683), as far as it drives the job queue and
  while no stop is signalled: an empty batch finishes at once; otherwise every job of the
  batch is added, \<^verbatim>\<open>start_processing\<close> is called with the configured concurrency, and
  \<^verbatim>\<open>get_completed_jobs\<close> is called until \<^verbatim>\<open>is_finished()\<close>. Each element of \<open>polls\<close> is what
  one iteration of the loop observes: which futures are done and what they returned. The
  loop may need more iterations than \<open>polls\<close> provides; then the state returned is not
  finished.
\<close>

type_synonym 'r poll = "(nat \<Rightarrow> bool) \<times> (nat \<Rightarrow> 'r future_outcome)"

fun add_jobs :: "'j list \<Rightarrow> 'j job_queue_manager \<Rightarrow> 'j job_queue_manager" where
  "add_jobs [] s = s"
| "add_jobs (job # jobs) s = add_jobs jobs (add_job job s)"

fun poll_loop :: "'r poll list \<Rightarrow> 'j job_queue_manager \<Rightarrow> 'j job_queue_manager" where
  "poll_loop [] s = s"
| "poll_loop (p # ps) s =
     (if is_finished s then s
      else poll_loop ps (snd (get_completed_jobs (fst p) (snd p) s)))"

definition batch_thread_run ::
  "nat \<Rightarrow> 'j list \<Rightarrow> 'r poll list \<Rightarrow> 'j job_queue_manager" where
  "batch_thread_run max_concurrent_tasks_in_batch job_batch polls =
     (if job_batch = [] then new_job_queue
      else poll_loop polls
             (start_processing max_concurrent_tasks_in_batch (add_jobs job_batch new_job_queue)))"

section \<open>MailerApp: the campaign orchestrator\<close>

text \<open>
  The fields of \<^verbatim>\<open>MailerApp\<close> that the dispatch logic reads and writes (lines 1500-1516).
  Worker threads are modelled by fresh natural numbers. The last five fields are not
  attributes of the class: \<open>pending_dispatch_timers\<close> counts the \<^verbatim>\<open>QTimer.singleShot\<close> calls
  that have not fired yet, \<open>next_worker\<close> is the next fresh worker, \<open>started_batches\<close> logs
  every batch worker that was started (worker, its concurrency, its job slice),
  \<open>started_test_emails\<close> logs every test worker that was started (worker, test recipient, the
  job its payload was copied from), and \<open>stop_signalled\<close> logs the workers whose \<^verbatim>\<open>stop()\<close>
  was called.
\<close>

record 'j mailer_app =
  email_job_queue :: "'j list"
  current_job_index_for_dispatch :: nat
  active_batch_send_workers :: "nat list"
  active_test_email_workers :: "nat list"
  max_concurrent_sends_per_batch_worker :: nat
  batch_size_for_main_workers :: nat
  queue_processing_active :: bool
  is_paused_flag :: bool
  total_emails_processed_overall :: nat
  total_emails_successful_overall :: nat
  overall_processing_start_time :: real
  overall_processing_end_time :: real
  primary_emails_sent_since_last_test :: nat
  pending_dispatch_timers :: nat
  next_worker :: nat
  started_batches :: "(nat \<times> nat \<times> 'j list) list"
  started_test_emails :: "(nat \<times> string \<times> 'j) list"
  stop_signalled :: "nat list"

record batch_stats =
  total_jobs_in_batch :: nat
  completed_in_batch :: nat
  successful_in_batch :: nat
  failed_in_batch :: nat

definition new_mailer_app :: "nat \<Rightarrow> nat \<Rightarrow> 'j mailer_app" where
  "new_mailer_app max_concurrent batch_size =
     \<lparr>email_job_queue = [], current_job_index_for_dispatch = 0,
      active_batch_send_workers = [], active_test_email_workers = [],
      max_concurrent_sends_per_batch_worker = max_concurrent,
      batch_size_for_main_workers = batch_size,
      queue_processing_active = False, is_paused_flag = False,
      total_emails_processed_overall = 0, total_emails_successful_overall = 0,
      overall_processing_start_time = 0, overall_processing_end_time = 0,
      primary_emails_sent_since_last_test = 0,
      pending_dispatch_timers = 0, next_worker = 0, started_batches = [],
      started_test_emails = [], stop_signalled = []\<rparr>"

text \<open>
  The handlers run on the main thread, but not to completion one after the other:
  \<^verbatim>\<open>append_message_to_log_area\<close> ends with \<^verbatim>\<open>QApplication.processEvents()\<close> (line 2786), and
  a \<^verbatim>\<open>QMessageBox\<close> runs an event loop of its own while it is open. At such a point, in the
  middle of a handler, every event that is pending (a timer that is due, a queued signal of
  a worker thread, a click) is handled before the handler goes on. What the event loop
  handles at these points is an argument of the handler: \<open>pending\<close> lists, for the first,
  the second, ... point that the handler passes, the handlers that run there, in order and
  already applied to their events (a function from state to state each). Past the end of the
  list nothing is pending. A handler that calls another one after passing \<open>n\<close> points hands it
  the rest of the list.
\<close>

type_synonym 'j event_loop = "('j mailer_app \<Rightarrow> 'j mailer_app) list"

definition process_events :: "'j event_loop \<Rightarrow> nat \<Rightarrow> 'j mailer_app \<Rightarrow> 'j mailer_app" where
  "process_events pending k s = (if k < length pending then (pending ! k) s else s)"

text \<open>
  \<^verbatim>\<open>finalize_overall_queue_processing\<close> (lines 2368-2396): the flags and the end time are
  set, then the summary is logged.
\<close>

definition finalize_overall_queue_processing ::
  "'j event_loop \<Rightarrow> real \<Rightarrow> 'j mailer_app \<Rightarrow> 'j mailer_app" where
  "finalize_overall_queue_processing pending now s =
     process_events pending 0
       (s\<lparr>queue_processing_active := False, is_paused_flag := False,
          overall_processing_end_time := now\<rparr>)"

text \<open>
  \<^verbatim>\<open>dispatch_next_email_batch_to_worker\<close> (lines 2217-2269). The slice and its end index are
  computed from the cursor, the worker is appended to the active list and started, the
  dispatch is logged (line 2266, where the event loop runs), and only then the cursor is
  set to the end index that was computed before.
\<close>

definition dispatch_next_email_batch_to_worker ::
  "'j event_loop \<Rightarrow> real \<Rightarrow> 'j mailer_app \<Rightarrow> 'j mailer_app" where
  "dispatch_next_email_batch_to_worker pending now s =
     (if is_paused_flag s \<or> \<not> queue_processing_active s then s
      else if current_job_index_for_dispatch s \<ge> length (email_job_queue s) then
        (if active_batch_send_workers s = []
         then finalize_overall_queue_processing pending now s
         else s)
      else
        let batch_start_idx = current_job_index_for_dispatch s;
            batch_end_idx = min (batch_start_idx + batch_size_for_main_workers s)
                                (length (email_job_queue s));
            current_batch_of_prepared_jobs =
              take (batch_end_idx - batch_start_idx) (drop batch_start_idx (email_job_queue s))
        in if current_batch_of_prepared_jobs = [] then
             (if active_batch_send_workers s = []
              then finalize_overall_queue_processing pending now s
              else s)
           else
             let started =
                   s\<lparr>active_batch_send_workers := active_batch_send_workers s @ [next_worker s],
                     started_batches := started_batches s @
                       [(next_worker s, max_concurrent_sends_per_batch_worker s,
                         current_batch_of_prepared_jobs)],
                     next_worker := next_worker s + 1\<rparr>;
                 logged = process_events pending 0 started
             in logged\<lparr>current_job_index_for_dispatch := batch_end_idx\<rparr>)"

text \<open>
  \<^verbatim>\<open>action_start_queue_processing\<close> (lines 2176-2215). \<open>senders_selected\<close> is the outcome of
  the validation of the selected accounts or servers. Each of the three refusals shows a
  message box. The counters are reset before the start is logged (line 2207), the cursor
  is reset after it.
\<close>

definition action_start_queue_processing ::
  "'j event_loop \<Rightarrow> bool \<Rightarrow> real \<Rightarrow> 'j mailer_app \<Rightarrow> 'j mailer_app" where
  "action_start_queue_processing pending senders_selected now s =
     (if email_job_queue s = [] then process_events pending 0 s
      else if queue_processing_active s \<and> \<not> is_paused_flag s then process_events pending 0 s
      else if \<not> senders_selected then process_events pending 0 s
      else
        let s1 = s\<lparr>queue_processing_active := True, is_paused_flag := False\<rparr>;
            s2 = (if current_job_index_for_dispatch s1 = 0
                  then s1\<lparr>overall_processing_start_time := now,
                          total_emails_processed_overall := 0,
                          total_emails_successful_overall := 0\<rparr>
                  else s1);
            s3 = s2\<lparr>primary_emails_sent_since_last_test := 0\<rparr>;
            logged = process_events pending 0 s3;
            s4 = (if current_job_index_for_dispatch logged \<ge> length (email_job_queue logged)
                  then logged\<lparr>current_job_index_for_dispatch := 0\<rparr>
                  else logged)
        in dispatch_next_email_batch_to_worker (drop 1 pending) now s4)"

text \<open>
  The Start button is enabled by \<^verbatim>\<open>update_queue_control_buttons_state\<close> (lines 2728-2732),
  which every handler calls after it changed the state. Until that call the button lags
  behind the state; the clicks of the model are those that the state admits when they are
  handled.
\<close>

definition can_start_sending :: "bool \<Rightarrow> 'j mailer_app \<Rightarrow> bool" where
  "can_start_sending senders_selected s =
     (email_job_queue s \<noteq> [] \<and>
      (\<not> queue_processing_active s \<or> is_paused_flag s) \<and>
      senders_selected \<and>
      current_job_index_for_dispatch s < length (email_job_queue s))"

text \<open>
  \<^verbatim>\<open>on_batch_worker_finished\<close> (lines 2288-2329): the worker is removed and its statistics
  are added, the result is logged (line 2307), and then the flags decide between a timer
  for the next dispatch and the end of the campaign.
\<close>

definition on_batch_worker_finished ::
  "'j event_loop \<Rightarrow> nat \<Rightarrow> batch_stats \<Rightarrow> real \<Rightarrow> 'j mailer_app \<Rightarrow> 'j mailer_app" where
  "on_batch_worker_finished pending finished_worker batch_stats_dict now s =
     (let s1 = s\<lparr>active_batch_send_workers :=
                   remove1 finished_worker (active_batch_send_workers s),
                 total_emails_processed_overall :=
                   total_emails_processed_overall s + completed_in_batch batch_stats_dict,
                 total_emails_successful_overall :=
                   total_emails_successful_overall s + successful_in_batch batch_stats_dict\<rparr>;
          logged = process_events pending 0 s1
      in if queue_processing_active logged \<and> \<not> is_paused_flag logged then
           logged\<lparr>pending_dispatch_timers := pending_dispatch_timers logged + 1\<rparr>
         else if active_batch_send_workers logged = [] \<and>
                 (current_job_index_for_dispatch logged \<ge> length (email_job_queue logged) \<or>
                  \<not> queue_processing_active logged) then
           finalize_overall_queue_processing (drop 1 pending) now logged
         else logged)"

text \<open>
  \<^verbatim>\<open>action_toggle_pause_resume_queue\<close> (lines 2427-2459). The second refusal shows a message
  box; the pause and the resume are logged after the flags were set, and the timer of a
  resume is started after the log.
\<close>

definition action_toggle_pause_resume_queue ::
  "'j event_loop \<Rightarrow> real \<Rightarrow> 'j mailer_app \<Rightarrow> 'j mailer_app" where
  "action_toggle_pause_resume_queue pending now s =
     (if \<not> queue_processing_active s \<and> email_job_queue s = [] then s
      else if \<not> is_paused_flag s \<and>
              current_job_index_for_dispatch s \<ge> length (email_job_queue s) \<and>
              active_batch_send_workers s = [] then process_events pending 0 s
      else
        let s1 = s\<lparr>is_paused_flag := \<not> is_paused_flag s\<rparr>
        in if is_paused_flag s1 then process_events pending 0 s1
           else
             let s2 = s1\<lparr>queue_processing_active := True\<rparr>;
                 logged = process_events pending 0 s2
             in if current_job_index_for_dispatch logged < length (email_job_queue logged) \<or>
                   active_batch_send_workers logged \<noteq> []
                then logged\<lparr>pending_dispatch_timers := pending_dispatch_timers logged + 1\<rparr>
                else finalize_overall_queue_processing (drop 1 pending) now logged)"

text \<open>
  \<^verbatim>\<open>action_stop_queue_processing_and_clear\<close> (lines 2462-2546). \<open>confirmed\<close> is the answer
  to the confirmation dialog, which is the first point where the event loop runs; the
  second is the call of \<^verbatim>\<open>processEvents\<close> at line 2481, before the flags are set and the
  lists of workers are copied; the third is the log at line 2536, after the lists of
  workers and the queue were cleared and the cursor was reset.
\<close>

definition action_stop_queue_processing_and_clear ::
  "'j event_loop \<Rightarrow> bool \<Rightarrow> real \<Rightarrow> 'j mailer_app \<Rightarrow> 'j mailer_app" where
  "action_stop_queue_processing_and_clear pending confirmed now s =
     (if \<not> queue_processing_active s \<and> email_job_queue s = [] \<and>
         active_batch_send_workers s = [] \<and> active_test_email_workers s = [] then s
      else
        let asked = process_events pending 0 s
        in if \<not> confirmed then asked
           else
             let shown = process_events pending 1 asked;
                 s1 = shown\<lparr>queue_processing_active := False, is_paused_flag := True\<rparr>;
                 all_workers_to_signal_stop =
                   active_batch_send_workers s1 @ active_test_email_workers s1;
                 s2 = s1\<lparr>stop_signalled := stop_signalled s1 @ all_workers_to_signal_stop,
                         active_batch_send_workers := [], active_test_email_workers := [],
                         email_job_queue := [], current_job_index_for_dispatch := 0,
                         overall_processing_end_time := now\<rparr>
             in process_events pending 2 s2)"

text \<open>
  \<^verbatim>\<open>dispatch_single_test_email\<close> (lines 3230-3346) builds a test payload from a job and
  starts a worker for it; the payload itself is not modelled, the log keeps the recipient
  and the job it is copied from. Two messages are logged (lines 3240 and 3324) before the
  worker is appended to the active list and started.
\<close>

definition dispatch_single_test_email ::
  "'j event_loop \<Rightarrow> string \<Rightarrow> 'j \<Rightarrow> 'j mailer_app \<Rightarrow> 'j mailer_app" where
  "dispatch_single_test_email pending target_test_email_address base_job_config_for_test s =
     (let logged = process_events pending 1 (process_events pending 0 s)
      in logged\<lparr>active_test_email_workers := active_test_email_workers logged @ [next_worker logged],
                started_test_emails := started_test_emails logged @
                  [(next_worker logged, target_test_email_address, base_job_config_for_test)],
                next_worker := next_worker logged + 1\<rparr>)"

text \<open>
  \<^verbatim>\<open>on_primary_email_success_trigger_test\<close> (lines 2272-2285): \<open>target_test_address\<close> is
  the stripped text of the test-address field, \<open>trigger_after_count\<close> the value of the
  "test after X emails" spin box. Neither the processing flags nor the queue are read.
\<close>

definition on_primary_email_success_trigger_test ::
  "'j event_loop \<Rightarrow> 'j \<Rightarrow> string \<Rightarrow> int \<Rightarrow> 'j mailer_app \<Rightarrow> 'j mailer_app" where
  "on_primary_email_success_trigger_test pending successfully_sent_job_config
       target_test_address trigger_after_count s =
     (let s1 = s\<lparr>primary_emails_sent_since_last_test :=
                   primary_emails_sent_since_last_test s + 1\<rparr>
      in if target_test_address \<noteq> [] \<and> CHR ''@'' \<in> set target_test_address \<and>
            trigger_after_count > 0 \<and>
            int (primary_emails_sent_since_last_test s1) \<ge> trigger_after_count
         then dispatch_single_test_email pending target_test_address
                successfully_sent_job_config
                (s1\<lparr>primary_emails_sent_since_last_test := 0\<rparr>)
         else s1)"

text \<open>
  \<^verbatim>\<open>on_test_email_worker_finished\<close> (lines 2332-2365): the result is logged, then the
  worker is removed.
\<close>

definition on_test_email_worker_finished ::
  "'j event_loop \<Rightarrow> nat \<Rightarrow> 'j mailer_app \<Rightarrow> 'j mailer_app" where
  "on_test_email_worker_finished pending test_worker s =
     (let logged = process_events pending 0 s
      in logged\<lparr>active_test_email_workers :=
                  remove1 test_worker (active_test_email_workers logged)\<rparr>)"

text \<open>
  What the main thread handles: button clicks, timers, and the signals of the worker
  threads. \<open>CampaignPrepared jobs\<close> is a run of
  \<^verbatim>\<open>action_prepare_campaign_and_add_to_queue\<close> that admitted \<open>jobs\<close> and logged its summary
  (line 3215) after it. The Start button can be clicked when it is enabled, a timer fires
  when one is pending.
\<close>

datatype 'j app_signal =
    StartClicked bool real
  | DispatchTimer real
  | BatchWorkerFinished nat batch_stats real
  | PauseResumeClicked real
  | StopClicked bool real
  | CampaignPrepared "'j list"
  | PrimaryEmailSent 'j string int
  | TestWorkerFinished nat

fun handle_signal :: "'j app_signal \<Rightarrow> 'j event_loop \<Rightarrow> 'j mailer_app \<Rightarrow> 'j mailer_app" where
  "handle_signal (StartClicked senders_selected now) pending s =
     (if can_start_sending senders_selected s
      then action_start_queue_processing pending senders_selected now s else s)"
| "handle_signal (DispatchTimer now) pending s =
     (if pending_dispatch_timers s = 0 then s
      else dispatch_next_email_batch_to_worker pending now
             (s\<lparr>pending_dispatch_timers := pending_dispatch_timers s - 1\<rparr>))"
| "handle_signal (BatchWorkerFinished w stats now) pending s =
     on_batch_worker_finished pending w stats now s"
| "handle_signal (PauseResumeClicked now) pending s =
     action_toggle_pause_resume_queue pending now s"
| "handle_signal (StopClicked confirmed now) pending s =
     action_stop_queue_processing_and_clear pending confirmed now s"
| "handle_signal (CampaignPrepared jobs) pending s =
     process_events pending 0 (s\<lparr>email_job_queue := email_job_queue s @ jobs\<rparr>)"
| "handle_signal (PrimaryEmailSent job target trigger) pending s =
     on_primary_email_success_trigger_test pending job target trigger s"
| "handle_signal (TestWorkerFinished w) pending s = on_test_email_worker_finished pending w s"

text \<open>
  An event is a signal together with the events that the event loop handles inside its
  handler: \<open>Event sig delivered\<close> carries, for each point where the handler lets the event
  loop run, the events handled there, which are events of the same kind.
\<close>

datatype 'j app_event = Event "'j app_signal" "'j app_event list list"

definition run_handlers :: "('s \<Rightarrow> 's) list \<Rightarrow> 's \<Rightarrow> 's" where
  "run_handlers handlers s = fold (\<lambda>handler. handler) handlers s"

primrec handle_event :: "'j app_event \<Rightarrow> 'j mailer_app \<Rightarrow> 'j mailer_app" where
  "handle_event (Event sig delivered) =
     handle_signal sig (map run_handlers (map (map handle_event) delivered))"

definition app_events :: "'j app_event list \<Rightarrow> 'j mailer_app \<Rightarrow> 'j mailer_app" where
  "app_events es s = run_handlers (map handle_event es) s"

text \<open>An event inside whose handler nothing else is handled.\<close>

definition alone :: "'j app_signal \<Rightarrow> 'j app_event" where
  "alone sig = Event sig []"

fun is_confirmed_stop :: "'j app_signal \<Rightarrow> bool" where
  "is_confirmed_stop (StopClicked confirmed now) = confirmed"
| "is_confirmed_stop sig = False"

definition no_confirmed_stop :: "'j app_signal list \<Rightarrow> bool" where
  "no_confirmed_stop sigs = (filter is_confirmed_stop sigs = [])"

definition fifo_kept :: "'j list \<Rightarrow> 'j job_queue_manager \<Rightarrow> bool" where
  "fifo_kept jobs s = (submitted s @ job_queue s = jobs \<and> \<not> executor_shutdown s)"

text \<open>
  The batches started since the \<open>base\<close>-th one are, in order, the slices of the job list
  up to the cursor.
\<close>

definition dispatched_prefix :: "nat \<Rightarrow> 'j mailer_app \<Rightarrow> bool" where
  "dispatched_prefix base s =
     (concat (map (snd \<circ> snd) (drop base (started_batches s))) =
        take (current_job_index_for_dispatch s) (email_job_queue s) \<and>
      current_job_index_for_dispatch s \<le> length (email_job_queue s) \<and>
      base \<le> length (started_batches s))"

definition demo_stats :: batch_stats where
  "demo_stats = \<lparr>total_jobs_in_batch = 2, completed_in_batch = 2,
                 successful_in_batch = 2, failed_in_batch = 0\<rparr>"

definition demo_stats_one :: batch_stats where
  "demo_stats_one = \<lparr>total_jobs_in_batch = 1, completed_in_batch = 1,
                     successful_in_batch = 1, failed_in_batch = 0\<rparr>"

definition demo_polls :: "nat \<Rightarrow> bool poll list" where
  "demo_polls w = [(\<lambda>f. True, \<lambda>f. Returned True), (\<lambda>f. True, \<lambda>f. Returned True)]"

text \<open>
  A campaign of five jobs with batch size 2. It is paused and resumed while the first batch
  is being sent, so the timer of the resume starts the second batch beside the first; the
  two workers finish one right after the other and each leaves a timer for the next
  dispatch. The first of these timers fires, and while its dispatch logs, the second fires.
  Then the last two workers finish and the campaign is finalized.
\<close>

definition reentrant_campaign :: "nat app_event list" where
  "reentrant_campaign =
     [alone (CampaignPrepared [10, 20, 30, 40, 50]), alone (StartClicked True 0),
      alone (PauseResumeClicked 1), alone (PauseResumeClicked 2), alone (DispatchTimer 3),
      alone (BatchWorkerFinished 0 demo_stats 4), alone (BatchWorkerFinished 1 demo_stats 5),
      Event (DispatchTimer 6) [[alone (DispatchTimer 6)]],
      alone (BatchWorkerFinished 2 demo_stats_one 7),
      alone (BatchWorkerFinished 3 demo_stats_one 8),
      alone (DispatchTimer 9), alone (DispatchTimer 10)]"

definition demo_campaign :: "nat app_signal list" where
  "demo_campaign =
     [CampaignPrepared [10, 20, 30], StartClicked True 0, PauseResumeClicked 1,
      BatchWorkerFinished 0 demo_stats 2, PauseResumeClicked 3, DispatchTimer 4,
      BatchWorkerFinished 1 demo_stats_one 5, DispatchTimer 6]"

definition demo_finished_app :: "nat mailer_app" where
  "demo_finished_app = app_events (map alone demo_campaign) (new_mailer_app 1 2)"

definition demo_mid_campaign :: "nat mailer_app" where
  "demo_mid_campaign =
     app_events [alone (CampaignPrepared [10, 20, 30]), alone (StartClicked True 0)]
       (new_mailer_app 1 2)"

definition stop_with_late_signal :: "nat app_event" where
  "stop_with_late_signal =
     Event (StopClicked True 1) [[], [], [alone (PrimaryEmailSent 10 ''qa@example.com'' 1)]]"

section \<open>AdvancedRateLimiter: token bucket with burst\<close>

text \<open>
  \<^verbatim>\<open>AdvancedRateLimiter\<close> (lines 173-202). Times and token counts are Python floats; the model
  computes with real numbers, so rounding is left out. \<open>now\<close> is the value of \<^verbatim>\<open>time.time()\<close>
  when the limiter is created. The token count starts at the burst size as given, while
  the stored rate and burst size are clamped from below.
\<close>

record rate_limiter =
  emails_per_second :: real
  burst_size :: real
  tokens :: real
  last_update :: real

definition new_rate_limiter :: "real \<Rightarrow> real \<Rightarrow> real \<Rightarrow> rate_limiter" where
  "new_rate_limiter emails_per_second_arg burst_size_arg now =
     \<lparr>emails_per_second = max emails_per_second_arg (1 / 10),
      burst_size = max burst_size_arg 1,
      tokens = burst_size_arg,
      last_update = now\<rparr>"

text \<open>One pass through the locked block of \<^verbatim>\<open>acquire\<close>, at clock reading \<open>now\<close>.\<close>

definition try_acquire :: "real \<Rightarrow> rate_limiter \<Rightarrow> bool \<times> rate_limiter" where
  "try_acquire now l =
     (let tokens_to_add = (now - last_update l) * emails_per_second l;
          l1 = l\<lparr>tokens := min (burst_size l) (tokens l + tokens_to_add), last_update := now\<rparr>
      in if tokens l1 \<ge> 1 then (True, l1\<lparr>tokens := tokens l1 - 1\<rparr>) else (False, l1))"

text \<open>
  The \<^verbatim>\<open>while time.time() - start_time < timeout\<close> loop. The list holds the successive
  readings of \<^verbatim>\<open>time.time()\<close>: one for the loop condition, one for \<open>now\<close> inside the lock.
  The result is \<open>Some True\<close> (acquired), \<open>Some False\<close> (timeout), or \<open>None\<close> when the
  readings end before the call returns; the unread readings are returned too.
\<close>

fun acquire_loop ::
  "real \<Rightarrow> real \<Rightarrow> real list \<Rightarrow> rate_limiter \<Rightarrow> bool option \<times> rate_limiter \<times> real list" where
  "acquire_loop timeout start_time [] l = (None, l, [])"
| "acquire_loop timeout start_time [t] l =
     (if t - start_time < timeout then (None, l, []) else (Some False, l, []))"
| "acquire_loop timeout start_time (t # now # clock) l =
     (if t - start_time < timeout then
        (case try_acquire now l of
           (True, l') \<Rightarrow> (Some True, l', clock)
         | (False, l') \<Rightarrow> acquire_loop timeout start_time clock l')
      else (Some False, l, now # clock))"

definition acquire ::
  "real \<Rightarrow> real list \<Rightarrow> rate_limiter \<Rightarrow> bool option \<times> rate_limiter \<times> real list" where
  "acquire timeout clock l =
     (case clock of
        [] \<Rightarrow> (None, l, [])
      | start_time # rest \<Rightarrow> acquire_loop timeout start_time rest l)"

text \<open>
  A sequence of \<^verbatim>\<open>acquire\<close> calls, one per timeout, reading one clock; \<open>granted\<close> counts
  the calls that returned True.
\<close>

fun acquire_calls ::
  "real list \<Rightarrow> real list \<Rightarrow> rate_limiter \<Rightarrow> nat \<Rightarrow> nat \<times> rate_limiter" where
  "acquire_calls [] clock l granted = (granted, l)"
| "acquire_calls (timeout # timeouts) clock l granted =
     (case acquire timeout clock l of
        (outcome, l', rest) \<Rightarrow>
          acquire_calls timeouts rest l' (if outcome = Some True then granted + 1 else granted))"

text \<open>
  Calls from several threads interleave, but the lock makes each pass through the locked
  block atomic: the limiter sees a sequence of passes at successive readings of the clock.
\<close>

fun locked_passes :: "real list \<Rightarrow> rate_limiter \<Rightarrow> nat \<Rightarrow> nat \<times> rate_limiter" where
  "locked_passes [] l granted = (granted, l)"
| "locked_passes (now # nows) l granted =
     (case try_acquire now l of
        (ok, l') \<Rightarrow> locked_passes nows l' (if ok then granted + 1 else granted))"

section \<open>Conservation of tokens\<close>

text \<open>
  What every pass through the locked block keeps, whatever happened before: the stored
  rate \<open>R\<close> and burst size \<open>B\<close>, and the cap of the token count at the burst size.
\<close>

definition capped :: "real \<Rightarrow> real \<Rightarrow> rate_limiter \<Rightarrow> bool" where
  "capped R B l =
     (emails_per_second l = R \<and> burst_size l = B \<and> 0 \<le> R \<and> 1 \<le> B \<and> tokens l \<le> B)"

text \<open>
  The balance over a window of time that starts at \<open>t1\<close>, for the passes made at readings
  of the clock from \<open>t1\<close> on: before the first of them nothing is granted; after it, the
  tokens granted in the window and the tokens in the bucket never exceed the burst size
  plus what accrued since \<open>t1\<close>.
\<close>

definition conserved :: "real \<Rightarrow> real \<Rightarrow> real \<Rightarrow> real \<Rightarrow> nat \<Rightarrow> rate_limiter \<Rightarrow> bool" where
  "conserved t1 t_end R B granted l =
     (capped R B l \<and>
      (if last_update l < t1 then granted = 0
       else real granted + tokens l \<le> B + R * (last_update l - t1)) \<and>
      (granted = 0 \<or> 0 \<le> tokens l) \<and>
      last_update l \<le> t_end)"

section \<open>Strings and randomness\<close>

text \<open>
  Python strings are modelled as lists of \<^typ>\<open>char\<close> (code points below 256).
  \<^verbatim>\<open>str.strip()\<close> removes the characters for which \<^verbatim>\<open>str.isspace()\<close> holds.
  The random module is modelled by a random source \<open>draw\<close>, a function from the number of
  the draw to a natural number, and a counter of the draws made so far:
  \<^verbatim>\<open>random.choice(xs)\<close> is the element of \<open>xs\<close> at index \<open>draw n mod len(xs)\<close>.
\<close>

definition py_isspace :: "char \<Rightarrow> bool" where
  "py_isspace c = (of_char c \<in> {9, 10, 11, 12, 13, 28, 29, 30, 31, 32, 133, 160 :: nat})"

definition py_strip :: "string \<Rightarrow> string" where
  "py_strip s = rev (dropWhile py_isspace (rev (dropWhile py_isspace s)))"

fun py_split :: "char \<Rightarrow> string \<Rightarrow> string list" where
  "py_split sep [] = [[]]"
| "py_split sep (c # cs) =
     (if c = sep then [] # py_split sep cs
      else (case py_split sep cs of
              [] \<Rightarrow> [[c]]
            | part # parts \<Rightarrow> (c # part) # parts))"

text \<open>\<^verbatim>\<open>text.replace(old, new, 1)\<close>: the first occurrence of \<open>old\<close> is replaced.\<close>

fun replace_first :: "string \<Rightarrow> string \<Rightarrow> string \<Rightarrow> string" where
  "replace_first old new [] = (if old = [] then new else [])"
| "replace_first old new (c # cs) =
     (if prefix old (c # cs) then new @ drop (length old) (c # cs)
      else c # replace_first old new cs)"

definition random_choice :: "(nat \<Rightarrow> nat) \<Rightarrow> nat \<Rightarrow> 'a list \<Rightarrow> 'a" where
  "random_choice draw n xs = xs ! (draw n mod length xs)"

section \<open>Spintax\<close>

text \<open>
  \<^verbatim>\<open>spintax_pattern = re.compile(r'\{([^{}]*?)\}')\<close> and \<^verbatim>\<open>spintax_pattern.search\<close>:
  the leftmost \<open>{\<close> that is followed by characters other than braces and then \<open>}\<close>.
  \<open>brace_body\<close> reads what follows a \<open>{\<close>; \<open>search_innermost\<close> returns the text before
  the match, the content of the braces and the text after the match.
\<close>

fun brace_body :: "string \<Rightarrow> (string \<times> string) option" where
  "brace_body [] = None"
| "brace_body (c # cs) =
     (if c = CHR ''}'' then Some ([], cs)
      else if c = CHR ''{'' then None
      else (case brace_body cs of
              None \<Rightarrow> None
            | Some (content, rest) \<Rightarrow> Some (c # content, rest)))"

fun search_innermost :: "string \<Rightarrow> (string \<times> string \<times> string) option" where
  "search_innermost [] = None"
| "search_innermost (c # cs) =
     (case (if c = CHR ''{'' then brace_body cs else None) of
        Some (content, rest) \<Rightarrow> Some ([], content, rest)
      | None \<Rightarrow>
          (case search_innermost cs of
             None \<Rightarrow> None
           | Some (before, content, rest) \<Rightarrow> Some (c # before, content, rest)))"

text \<open>
  The \<^verbatim>\<open>for _ in range(10)\<close> loop of \<^verbatim>\<open>process_spintax_in_text\<close> (lines 2926-2948);
  \<open>n\<close> is the number of draws made so far.
\<close>

fun spintax_loop :: "(nat \<Rightarrow> nat) \<Rightarrow> nat \<Rightarrow> string \<Rightarrow> nat \<Rightarrow> string \<times> nat" where
  "spintax_loop draw 0 processed_text n = (processed_text, n)"
| "spintax_loop draw (Suc k) processed_text n =
     (case search_innermost processed_text of
        None \<Rightarrow> (processed_text, n)
      | Some (before, spintax_content_segment, rest) \<Rightarrow>
          let matched = CHR ''{'' # spintax_content_segment @ [CHR ''}'']
          in if CHR ''|'' \<in> set spintax_content_segment then
               let options_list = map py_strip (py_split CHR ''|'' spintax_content_segment);
                   chosen_option_str = random_choice draw n options_list
               in spintax_loop draw k (replace_first matched chosen_option_str processed_text)
                    (n + 1)
             else spintax_loop draw k (replace_first matched matched processed_text) n)"

definition process_spintax_in_text :: "(nat \<Rightarrow> nat) \<Rightarrow> string \<Rightarrow> nat \<Rightarrow> string \<times> nat" where
  "process_spintax_in_text draw text_with_spintax n =
     (if text_with_spintax = [] \<or> CHR ''{'' \<notin> set text_with_spintax
      then (text_with_spintax, n)
      else spintax_loop draw 10 text_with_spintax n)"

section \<open>Dynamic tags\<close>

text \<open>\<^verbatim>\<open>CHAR_SETS\<close> and \<^verbatim>\<open>generate_random_string\<close> (lines 447-461).\<close>

definition digits :: string where
  "digits = ''0123456789''"

definition ascii_lowercase :: string where
  "ascii_lowercase = ''abcdefghijklmnopqrstuvwxyz''"

definition ascii_uppercase :: string where
  "ascii_uppercase = ''ABCDEFGHIJKLMNOPQRSTUVWXYZ''"

definition symbols :: string where
  "symbols = ''!@#$%^&*()-_=+[]{};:'' @ [CHR 0x27, CHR 0x22] @ '',.<>/?~'' @ [CHR 0x60] @ ''|''"

definition CHAR_SETS :: "string \<Rightarrow> string option" where
  "CHAR_SETS key =
     (if key = ''n'' then Some digits
      else if key = ''l'' then Some ascii_lowercase
      else if key = ''u'' then Some ascii_uppercase
      else if key = ''s'' then Some symbols
      else if key = ''a'' then Some (ascii_lowercase @ ascii_uppercase @ digits)
      else if key = ''lu'' then Some (ascii_lowercase @ ascii_uppercase)
      else if key = ''ln'' then Some (ascii_lowercase @ digits)
      else if key = ''un'' then Some (ascii_uppercase @ digits)
      else None)"

definition generate_random_string ::
  "(nat \<Rightarrow> nat) \<Rightarrow> nat \<Rightarrow> string \<Rightarrow> nat \<Rightarrow> string \<times> nat" where
  "generate_random_string draw len char_set_key n =
     (let chars_to_use = (case CHAR_SETS char_set_key of
                            None \<Rightarrow> ascii_lowercase @ ascii_uppercase @ digits
                          | Some chars \<Rightarrow> chars);
          chars_to_use = (if chars_to_use = [] then ascii_lowercase @ ascii_uppercase @ digits
                          else chars_to_use)
      in (map (\<lambda>i. random_choice draw (n + i) chars_to_use) [0..<len], n + len))"

text \<open>
  What resolution reads from outside: the random source, the text of
  \<^verbatim>\<open>datetime.now().strftime(...)\<close>, the successive values of \<^verbatim>\<open>str(uuid.uuid4())\<close>, the two placeholder
  passes (the loop of \<^verbatim>\<open>re.sub\<close> over the items of a dictionary, lines 2831-2849), and, for
  the preparation of a job, \<^verbatim>\<open>_parse_recipients\<close> and the HTML-to-text converter. The last
  three are not modelled further: the claims hold whatever they return.
\<close>

record environment =
  draw :: "nat \<Rightarrow> nat"
  date_now :: string
  uuid4 :: "nat \<Rightarrow> string"
  substitute :: "(string \<times> string) list \<Rightarrow> string \<Rightarrow> string"
  parse_recipients :: "string \<Rightarrow> string list"
  html_to_text :: "string \<Rightarrow> string"

text \<open>
  The state threaded through the resolution of one job: the numbers of random draws and
  of UUIDs made so far, and the boundary-tag cache of the job.
\<close>

record resolver_state =
  draws :: nat
  uuids :: nat
  boundary_tag_cache :: "string \<rightharpoonup> string"

text \<open>
  A step of the resolution either returns a value or raises an exception; in both cases it
  leaves a state behind (the random numbers drawn before an exception are used up). The
  value \<open>None\<close> is the exception. \<open>and_then\<close> runs the next step unless an exception was
  raised.
\<close>

type_synonym 'a outcome = "'a option \<times> resolver_state"

definition returned :: "'a \<times> resolver_state \<Rightarrow> 'a outcome" where
  "returned r = (Some (fst r), snd r)"

definition and_then :: "'a outcome \<Rightarrow> ('a \<Rightarrow> resolver_state \<Rightarrow> 'b outcome) \<Rightarrow> 'b outcome" where
  "and_then r next_step =
     (case r of
        (None, st) \<Rightarrow> (None, st)
      | (Some v, st) \<Rightarrow> next_step v st)"

text \<open>
  \<^verbatim>\<open>re.match(r"^(rnd|bnd)([nalus]{1,2})_(\d+)$", tag_content_key)\<close>: the groups, when the
  key matches. The character class is tried with two characters first.
\<close>

definition is_digit :: "char \<Rightarrow> bool" where
  "is_digit c = (c \<in> set digits)"

definition in_nalus :: "char \<Rightarrow> bool" where
  "in_nalus c = (c \<in> set ''nalus'')"

definition var_len_tag_match :: "string \<Rightarrow> (string \<times> string \<times> string) option" where
  "var_len_tag_match key =
     (let kind = take 3 key; tail = drop 3 key;
          one_char = (case tail of
                        c1 # u # ds \<Rightarrow>
                          if in_nalus c1 \<and> u = CHR ''_'' \<and> ds \<noteq> [] \<and> list_all is_digit ds
                          then Some (kind, [c1], ds) else None
                      | _ \<Rightarrow> None)
      in if kind = ''rnd'' \<or> kind = ''bnd'' then
           (case tail of
              c1 # c2 # u # ds \<Rightarrow>
                if in_nalus c1 \<and> in_nalus c2 \<and> u = CHR ''_'' \<and> ds \<noteq> [] \<and> list_all is_digit ds
                then Some (kind, [c1, c2], ds) else one_char
            | _ \<Rightarrow> one_char)
         else None)"

text \<open>
  \<^verbatim>\<open>int(length_str)\<close> on a string of decimal digits. CPython refuses to convert a string
  of more than 4300 digits (\<^verbatim>\<open>sys.int_info.default_max_str_digits\<close>, which the source does
  not change) and raises ValueError: that is the result \<open>None\<close>.
\<close>

definition int_max_str_digits :: nat where
  "int_max_str_digits = 4300"

definition py_int :: "string \<Rightarrow> nat option" where
  "py_int ds =
     (if length ds > int_max_str_digits then None
      else Some (foldl (\<lambda>a d. 10 * a + (of_char d - 48)) 0 ds))"

text \<open>
  The lazy \<^verbatim>\<open>.*?\]\}\}\<close> of both regular expressions: the content up to the first
  \<^verbatim>\<open>]}}\<close>, which a newline must not precede, and the text after it.
\<close>

fun tag_close :: "string \<Rightarrow> (string \<times> string) option" where
  "tag_close [] = None"
| "tag_close (c # cs) =
     (if prefix '']}}'' (c # cs) then Some ([], drop 3 (c # cs))
      else if c = CHR 0x0A then None
      else (case tag_close cs of
              None \<Rightarrow> None
            | Some (content, rest) \<Rightarrow> Some (c # content, rest)))"

definition dict_get :: "(string \<times> string) list \<Rightarrow> string \<Rightarrow> string \<Rightarrow> string" where
  "dict_get d key dflt = (case map_of d key of None \<Rightarrow> dflt | Some v \<Rightarrow> v)"

text \<open>\<^verbatim>\<open>dynamic_tag_replacer_func\<close> (lines 2852-2903).\<close>

definition cached_or_generated ::
  "environment \<Rightarrow> string \<Rightarrow> nat \<Rightarrow> string \<Rightarrow> resolver_state \<Rightarrow> string \<times> resolver_state" where
  "cached_or_generated env full_matched_tag len char_set_key st =
     (case boundary_tag_cache st full_matched_tag of
        Some v \<Rightarrow> (v, st)
      | None \<Rightarrow>
          (case generate_random_string (draw env) len char_set_key (draws st) of
             (v, n) \<Rightarrow>
               (v, st\<lparr>draws := n,
                       boundary_tag_cache := (boundary_tag_cache st)(full_matched_tag \<mapsto> v)\<rparr>)))"

definition fresh_random ::
  "environment \<Rightarrow> nat \<Rightarrow> string \<Rightarrow> resolver_state \<Rightarrow> string \<times> resolver_state" where
  "fresh_random env len char_set_key st =
     (case generate_random_string (draw env) len char_set_key (draws st) of
        (v, n) \<Rightarrow> (v, st\<lparr>draws := n\<rparr>))"

text \<open>
  \<^verbatim>\<open>re.match(r"\{\{\[(.*?)\]\}\}", full_matched_tag)\<close> and its group 1. The default of
  \<^verbatim>\<open>.get("email_id", str(uuid.uuid4())[:12])\<close> is evaluated at every call, so a UUID is
  used up whenever an \<open>ide\<close> tag is replaced. The conversion of the length at line 2892 is
  not guarded: when it raises, the replacer raises.
\<close>

definition tag_content :: "string \<Rightarrow> string option" where
  "tag_content full_matched_tag =
     (if prefix ''{{['' full_matched_tag
      then map_option fst (tag_close (drop 3 full_matched_tag))
      else None)"

definition dynamic_tag_replacer_func ::
  "environment \<Rightarrow> (string \<times> string) list \<Rightarrow> string \<Rightarrow> resolver_state \<Rightarrow> string outcome" where
  "dynamic_tag_replacer_func env job_specific_context_dict full_matched_tag st =
     (if full_matched_tag = ''#{{[token]}}'' then
        returned (cached_or_generated env full_matched_tag 12 ''a'' st)
      else
        (case tag_content full_matched_tag of
           None \<Rightarrow> (Some full_matched_tag, st)
         | Some content \<Rightarrow>
             let tag_content_key = py_strip content
             in if tag_content_key = ''ide'' then
                  (Some (dict_get job_specific_context_dict ''email_id''
                           (take 12 (uuid4 env (uuids st)))),
                   st\<lparr>uuids := uuids st + 1\<rparr>)
                else if tag_content_key = ''date'' then (Some (date_now env), st)
                else if tag_content_key = ''tag'' then returned (fresh_random env 8 ''a'' st)
                else if tag_content_key = ''rnd'' then returned (fresh_random env 18 ''a'' st)
                else if tag_content_key = ''fromname'' then
                  (Some (dict_get job_specific_context_dict ''current_from_name_for_job'' []), st)
                else if tag_content_key = ''subject'' then
                  (Some (dict_get job_specific_context_dict ''current_subject_for_job'' []), st)
                else if tag_content_key = ''to'' then
                  (Some (dict_get job_specific_context_dict ''current_recipient_email'' []), st)
                else if tag_content_key = ''name'' then
                  (let recipient_email_str =
                         dict_get job_specific_context_dict ''current_recipient_email'' []
                   in if CHR ''@'' \<in> set recipient_email_str
                      then (Some (takeWhile (\<lambda>c. c \<noteq> CHR ''@'') recipient_email_str), st)
                      else (Some [], st))
                else if tag_content_key = ''smtp'' then
                  (Some (dict_get job_specific_context_dict ''smtp_username_for_tag'' []), st)
                else if tag_content_key = ''smtp_name'' then
                  (Some (dict_get job_specific_context_dict ''smtp_server_nickname_for_tag'' []),
                   st)
                else
                  (case var_len_tag_match tag_content_key of
                     None \<Rightarrow> (Some full_matched_tag, st)
                   | Some (tag_kind_prefix, char_set_suffix, length_str) \<Rightarrow>
                       (case py_int length_str of
                          None \<Rightarrow> (None, st)
                        | Some length_int \<Rightarrow>
                            if \<not> (0 < length_int \<and> length_int \<le> 1024)
                            then (Some full_matched_tag, st)
                            else if tag_kind_prefix = ''bnd'' then
                              returned (cached_or_generated env full_matched_tag length_int
                                          char_set_suffix st)
                            else returned (fresh_random env length_int char_set_suffix st)))))"

text \<open>
  \<^verbatim>\<open>dynamic_tag_pattern_regex.sub(dynamic_tag_replacer_func, text)\<close> with the pattern
  \<^verbatim>\<open>(#\{\{\[token\]\}\}|\{\{\[.*?\]\}\})\<close>: the text is cut, from the left, into the matches
  of the pattern and the characters between them, and every match is replaced, from the
  left; an exception of the replacer ends the substitution.
\<close>

datatype token = Lit char | Tag string

function find_dynamic_tags :: "string \<Rightarrow> token list" where
  "find_dynamic_tags [] = []"
| "find_dynamic_tags (c # cs) =
     (if prefix ''#{{[token]}}'' (c # cs) then
        Tag ''#{{[token]}}'' # find_dynamic_tags (drop 12 (c # cs))
      else
        (case (if prefix ''{{['' (c # cs) then tag_close (drop 3 (c # cs)) else None) of
           Some (content, rest) \<Rightarrow> Tag (''{{['' @ content @ '']}}'') # find_dynamic_tags rest
         | None \<Rightarrow> Lit c # find_dynamic_tags cs))"
  by pat_completeness auto
termination
proof (relation "measure length")
  have shorter: "length rest < length s" if "tag_close s = Some (content, rest)"
    for s content rest
    using that
  proof (induction s arbitrary: content)
    case Nil
    then show ?case by simp
  next
    case (Cons c cs)
    show ?case
    proof (cases "prefix '']}}'' (c # cs)")
      case True
      then show ?thesis using Cons.prems by auto
    next
      case False
      then show ?thesis
        using Cons by (auto split: if_splits option.splits)
    qed
  qed
  show "wf (measure length)" by simp
  show "(drop 12 (c # cs), c # cs) \<in> measure length" for c :: char and cs by simp
  show "(rest, c # cs) \<in> measure length"
    if "(if prefix ''{{['' (c # cs) then tag_close (drop 3 (c # cs)) else None) = Some x2"
      and "(content, rest) = x2"
    for c :: char and cs x2 content rest
  proof -
    have "tag_close (drop 3 (c # cs)) = Some (content, rest)"
      using that by (auto split: if_splits)
    from shorter [OF this] show ?thesis by simp
  qed
  show "(cs, c # cs) \<in> measure length" for c :: char and cs by simp
qed

fun replace_tokens ::
  "environment \<Rightarrow> (string \<times> string) list \<Rightarrow> token list \<Rightarrow> resolver_state \<Rightarrow>
   string outcome" where
  "replace_tokens env ctx [] st = (Some [], st)"
| "replace_tokens env ctx (Lit c # ts) st =
     and_then (replace_tokens env ctx ts st) (\<lambda>out st'. (Some (c # out), st'))"
| "replace_tokens env ctx (Tag t # ts) st =
     and_then (dynamic_tag_replacer_func env ctx t st)
       (\<lambda>replacement st1.
          and_then (replace_tokens env ctx ts st1)
            (\<lambda>out st'. (Some (replacement @ out), st')))"

text \<open>\<^verbatim>\<open>_resolve_all_placeholders_and_tags\<close> (lines 2822-2910).\<close>

definition resolve_all_placeholders_and_tags ::
  "environment \<Rightarrow> string \<Rightarrow> (string \<times> string) list \<Rightarrow> (string \<times> string) list \<Rightarrow>
   resolver_state \<Rightarrow> string outcome" where
  "resolve_all_placeholders_and_tags env text_template_input data_list_row_dict
       job_specific_context_dict st =
     (let resolved1 = (if data_list_row_dict \<noteq> []
                       then substitute env data_list_row_dict text_template_input
                       else text_template_input);
          resolved2 = (if job_specific_context_dict \<noteq> []
                       then substitute env job_specific_context_dict resolved1
                       else resolved1)
      in replace_tokens env job_specific_context_dict (find_dynamic_tags resolved2) st)"

definition demo_env :: environment where
  "demo_env = \<lparr>draw = (\<lambda>n. n), date_now = ''2025-01-01 00:00:00'',
                uuid4 = (\<lambda>n. ''123e4567-e89b-42d3-a456-426614174000''),
                substitute = (\<lambda>d t. t), parse_recipients = (\<lambda>s. if s = [] then [] else [s]),
                html_to_text = (\<lambda>s. s)\<rparr>"

definition new_resolver_state :: resolver_state where
  "new_resolver_state = \<lparr>draws = 0, uuids = 0, boundary_tag_cache = Map.empty\<rparr>"

text \<open>
  The keys that \<^verbatim>\<open>dynamic_tag_replacer_func\<close> tests for by name. A length is valid when it
  converts to a number from 1 to 1024, and refused when its conversion raises. An
  unrecognized tag is a match other than \<^verbatim>\<open>#{{[token]}}\<close> whose stripped content is not
  one of the names and, when it matches the regular expression of the variable-length
  tags, has a length that is neither valid nor refused.
\<close>

definition generator_names :: "string list" where
  "generator_names = [''ide'', ''date'', ''tag'', ''rnd'', ''fromname'', ''subject'', ''to'',
                      ''name'', ''smtp'', ''smtp_name'']"

definition valid_length :: "string \<Rightarrow> bool" where
  "valid_length length_str =
     (case py_int length_str of
        None \<Rightarrow> False
      | Some length_int \<Rightarrow> 0 < length_int \<and> length_int \<le> 1024)"

definition refused_length :: "string \<Rightarrow> bool" where
  "refused_length length_str = (py_int length_str = None)"

definition unrecognized_tag :: "string \<Rightarrow> bool" where
  "unrecognized_tag full_matched_tag =
     (full_matched_tag \<noteq> ''#{{[token]}}'' \<and>
      (case tag_content full_matched_tag of
         None \<Rightarrow> True
       | Some content \<Rightarrow>
           py_strip content \<notin> set generator_names \<and>
           (case var_len_tag_match (py_strip content) of
              None \<Rightarrow> True
            | Some (kind, char_set_suffix, length_str) \<Rightarrow>
                \<not> valid_length length_str \<and> \<not> refused_length length_str)))"

text \<open>
  The claim's wording of a recognized generator, on the content as written between the
  brackets: a name, or \<open>rnd\<close> or \<open>bnd\<close>, a character set of the family
  n, a, l, u, s, lu, ln, un, an underscore and a length from 1 to 1024.
\<close>

definition charset_family :: "string list" where
  "charset_family = [''n'', ''a'', ''l'', ''u'', ''s'', ''lu'', ''ln'', ''un'']"

definition claimed_generator :: "string \<Rightarrow> bool" where
  "claimed_generator content =
     (content \<in> set generator_names \<or>
      (case var_len_tag_match content of
         None \<Rightarrow> False
       | Some (kind, char_set_suffix, length_str) \<Rightarrow>
           char_set_suffix \<in> set charset_family \<and> valid_length length_str))"

section \<open>Preparing one email job\<close>

text \<open>
  The fields of a prepared job that resolution fills. The sender-specific fields
  (\<^verbatim>\<open>type\<close>, \<^verbatim>\<open>sender_display_name\<close>, \<^verbatim>\<open>from_address\<close>, the copy of the account) are left out:
  no template is resolved for them.
\<close>

record email_job =
  job_id :: string
  recipients_to_list :: "string list"
  subject :: string
  htmlBody :: "string option"
  plainBody :: "string option"
  status :: string
  all_custom_headers :: "(string \<times> string) list"

text \<open>
  A template is resolved by \<^verbatim>\<open>_resolve_all_placeholders_and_tags\<close> and then by
  \<^verbatim>\<open>process_spintax_in_text\<close>, which draws from the same random source.
\<close>

definition resolve_and_spin ::
  "environment \<Rightarrow> string \<Rightarrow> (string \<times> string) list \<Rightarrow> (string \<times> string) list \<Rightarrow>
   resolver_state \<Rightarrow> string outcome" where
  "resolve_and_spin env template row_data_dict ctx st =
     and_then (resolve_all_placeholders_and_tags env template row_data_dict ctx st)
       (\<lambda>after_placeholders_tags st1.
          case process_spintax_in_text (draw env) after_placeholders_tags (draws st1) of
            (final, n) \<Rightarrow> (Some final, st1\<lparr>draws := n\<rparr>))"

text \<open>
  The loop over the lines of the custom headers (lines 3592-3601): a line with a colon is
  split at the first colon, its value is resolved and stored under its name.
\<close>

fun resolve_custom_headers ::
  "environment \<Rightarrow> (string \<times> string) list \<Rightarrow> (string \<times> string) list \<Rightarrow> string list \<Rightarrow>
   (string \<times> string) list \<Rightarrow> resolver_state \<Rightarrow> (string \<times> string) list outcome" where
  "resolve_custom_headers env row_data_dict ctx [] resolved st = (Some resolved, st)"
| "resolve_custom_headers env row_data_dict ctx (line # later_lines) resolved st =
     (let line_template = py_strip line
      in if CHR '':'' \<in> set line_template then
           (let header_name_final = py_strip (takeWhile (\<lambda>c. c \<noteq> CHR '':'') line_template);
                header_value_template_str =
                  py_strip (tl (dropWhile (\<lambda>c. c \<noteq> CHR '':'') line_template))
            in and_then (resolve_and_spin env header_value_template_str row_data_dict ctx st)
                 (\<lambda>final_resolved_header_value st1.
                    resolve_custom_headers env row_data_dict ctx later_lines
                      (AList.update header_name_final final_resolved_header_value resolved)
                      st1))
         else resolve_custom_headers env row_data_dict ctx later_lines resolved st)"

text \<open>
  The entries that the account adds to the context of the job (lines 3530-3540). An
  account is a dictionary of strings; a value that is absent is the empty string here.
\<close>

definition sender_context :: "(string \<times> string) list \<Rightarrow> (string \<times> string) list" where
  "sender_context sender_account_config =
     (let account_type =
            (if dict_get sender_account_config ''type'' [] \<noteq> []
             then dict_get sender_account_config ''type'' []
             else if map_of sender_account_config ''web_app_url'' \<noteq> None then ''appsscript''
             else if map_of sender_account_config ''host'' \<noteq> None then ''genericsmtp''
             else [])
      in if account_type = ''appsscript'' then
           [(''script_user_email'', dict_get sender_account_config ''email'' []),
            (''smtp_server_nickname_for_tag'',
             dict_get sender_account_config ''nickname''
               (dict_get sender_account_config ''email'' []))]
         else if account_type = ''genericsmtp'' then
           [(''smtp_username_for_tag'', dict_get sender_account_config ''username'' []),
            (''smtp_server_nickname_for_tag'',
             dict_get sender_account_config ''nickname''
               (dict_get sender_account_config ''host'' []))]
         else [])"

definition resolve_optional ::
  "environment \<Rightarrow> string option \<Rightarrow> (string \<times> string) list \<Rightarrow> (string \<times> string) list \<Rightarrow>
   resolver_state \<Rightarrow> string option outcome" where
  "resolve_optional env template row_data_dict ctx st =
     (case template of
        None \<Rightarrow> (Some None, st)
      | Some t \<Rightarrow>
          if t = [] then (Some None, st)
          else and_then (resolve_and_spin env t row_data_dict ctx st)
                 (\<lambda>final st1. (Some (Some final), st1)))"

text \<open>
  The custom headers of \<^verbatim>\<open>create_fully_prepared_email_job\<close> (lines 3588-3616): the
  resolved headers are stored, a Subject header replaces the subject, and a To header
  replaces the recipients when it parses to at least one address.
\<close>

definition header_get :: "(string \<times> string) list \<Rightarrow> string \<Rightarrow> string \<Rightarrow> string option" where
  "header_get headers name lower_name =
     (case map_of headers name of
        Some v \<Rightarrow> Some v
      | None \<Rightarrow> map_of headers lower_name)"

definition apply_custom_headers ::
  "environment \<Rightarrow> (string \<times> string) list \<Rightarrow> email_job \<Rightarrow> email_job" where
  "apply_custom_headers env resolved_custom_headers_dict email_job_dict =
     (let job1 = email_job_dict\<lparr>all_custom_headers := resolved_custom_headers_dict\<rparr>;
          job2 = (case header_get resolved_custom_headers_dict ''Subject'' ''subject'' of
                    None \<Rightarrow> job1
                  | Some custom_subject_from_headers \<Rightarrow>
                      job1\<lparr>subject := custom_subject_from_headers\<rparr>)
      in (case header_get resolved_custom_headers_dict ''To'' ''to'' of
            None \<Rightarrow> job2
          | Some custom_to_value_from_headers \<Rightarrow>
              if parse_recipients env custom_to_value_from_headers \<noteq> []
              then job2\<lparr>recipients_to_list :=
                          parse_recipients env custom_to_value_from_headers\<rparr>
              else job2))"

definition resolve_headers_of_job ::
  "environment \<Rightarrow> (string \<times> string) list \<Rightarrow> (string \<times> string) list \<Rightarrow> string option \<Rightarrow>
   email_job \<Rightarrow> resolver_state \<Rightarrow> email_job outcome" where
  "resolve_headers_of_job env row_data_dict ctx custom_headers email_job_dict st =
     (case custom_headers of
        None \<Rightarrow> (Some email_job_dict, st)
      | Some headers_text \<Rightarrow>
          if py_strip headers_text = [] then (Some email_job_dict, st)
          else
            and_then (resolve_custom_headers env row_data_dict ctx
                        (py_split (CHR 0x0A) (py_strip headers_text)) [] st)
              (\<lambda>resolved_custom_headers_dict st'.
                 (Some (apply_custom_headers env resolved_custom_headers_dict email_job_dict),
                  st')))"

text \<open>
  The subject, the from-name and the two bodies (lines 3543-3564); the context gains the
  resolved subject and from-name on the way. The result is the job before its custom
  headers, and the context the headers are resolved in.
\<close>

definition resolve_main_fields ::
  "environment \<Rightarrow> string \<Rightarrow> string list \<Rightarrow> string \<Rightarrow> string \<Rightarrow> string option \<Rightarrow>
   string option \<Rightarrow> (string \<times> string) list \<Rightarrow> (string \<times> string) list \<Rightarrow> resolver_state \<Rightarrow>
   (email_job \<times> (string \<times> string) list) outcome" where
  "resolve_main_fields env generated_job_id initial_to_emails_list subject_template
       from_name_template body_html_template body_plain_template row_data_dict ctx0 st1 =
     and_then (resolve_and_spin env subject_template row_data_dict ctx0 st1)
       (\<lambda>subject_spun st2.
          let final_resolved_subject =
                (if subject_spun = [] then ''No Subject'' else subject_spun);
              ctx1 = AList.update ''current_subject_for_job'' final_resolved_subject ctx0
          in and_then (resolve_and_spin env from_name_template row_data_dict ctx1 st2)
               (\<lambda>final_resolved_from_name_display st3.
                  let ctx2 = AList.update ''current_from_name_for_job''
                               final_resolved_from_name_display ctx1
                  in and_then (resolve_optional env body_html_template row_data_dict ctx2 st3)
                       (\<lambda>final_resolved_body_html st4.
                          and_then
                            (resolve_optional env body_plain_template row_data_dict ctx2 st4)
                            (\<lambda>resolved_plain st5.
                               (Some
                                  (\<lparr>job_id = generated_job_id,
                                    recipients_to_list = initial_to_emails_list,
                                    subject = final_resolved_subject,
                                    htmlBody = final_resolved_body_html,
                                    plainBody =
                                      (if resolved_plain \<noteq> None then resolved_plain
                                       else (case final_resolved_body_html of
                                               None \<Rightarrow> None
                                             | Some h \<Rightarrow>
                                                 if h = [] then None
                                                 else Some (html_to_text env h))),
                                    status = ''Prepared'',
                                    all_custom_headers = []\<rparr>, ctx2), st5)))))"

text \<open>
  \<^verbatim>\<open>create_fully_prepared_email_job\<close> (lines 3494-3655). \<open>custom_headers\<close> is \<open>None\<close> when the
  custom-headers box is not checked, else the text of the headers field. The state that
  comes in carries the counters of the random source; its cache is replaced by an empty
  one, as \<^verbatim>\<open>boundary_tag_cache_for_this_job = {}\<close> does. The job is \<open>None\<close> when the account is
  missing, and when an exception was raised on the way (\<^verbatim>\<open>except Exception\<close> at line 3651
  returns None).
\<close>

definition create_fully_prepared_email_job ::
  "environment \<Rightarrow> string list \<Rightarrow> string \<Rightarrow> string \<Rightarrow> string option \<Rightarrow> string option \<Rightarrow>
   (string \<times> string) list \<Rightarrow> (string \<times> string) list \<Rightarrow> string option \<Rightarrow>
   resolver_state \<Rightarrow> email_job option \<times> resolver_state" where
  "create_fully_prepared_email_job env initial_to_emails_list subject_template
       from_name_template body_html_template body_plain_template row_data_dict
       sender_account_config custom_headers st_in =
     (let generated_job_id = uuid4 env (uuids st_in);
          st0 = st_in\<lparr>uuids := uuids st_in + 1\<rparr>
      in if sender_account_config = [] then (None, st0)
         else
           (let boundary_tag_cache_for_this_job = Map.empty;
                st1 = st0\<lparr>boundary_tag_cache := boundary_tag_cache_for_this_job\<rparr>;
                ctx0 = [(''email_id'', generated_job_id),
                        (''current_recipient_email'',
                         (case initial_to_emails_list of [] \<Rightarrow> [] | r # rs \<Rightarrow> r))]
                       @ sender_context sender_account_config
            in and_then
                 (resolve_main_fields env generated_job_id initial_to_emails_list
                    subject_template from_name_template body_html_template
                    body_plain_template row_data_dict ctx0 st1)
                 (\<lambda>(email_job_dict, ctx2) st5.
                    resolve_headers_of_job env row_data_dict ctx2 custom_headers
                      email_job_dict st5)))"

section \<open>Preparing a campaign\<close>

text \<open>
  What \<^verbatim>\<open>action_prepare_campaign_and_add_to_queue\<close> reads from the interface. The lists
  of subject and from-name templates are never empty (the source puts the empty template
  in an empty list). \<open>custom_to_header_is_present\<close> is the test for \<^verbatim>\<open>"to:"\<close> in the
  lower-cased headers text.
\<close>

record campaign_inputs =
  base_to_recipients_template :: string
  all_subject_templates :: "string list"
  all_from_name_templates :: "string list"
  campaign_body_html_template :: "string option"
  campaign_body_plain_template :: "string option"
  campaign_custom_headers :: "string option"
  custom_to_header_is_present :: bool
  selected_accounts :: "(string \<times> string) list list"

datatype prepare_message =
    EmptyRowSkipped nat
  | NoRecipientsRowSkipped nat
  | FinalRecipientListEmpty nat
  | JobPreparationFailed nat
  | DataListProcessingError

text \<open>
  The progress of the job-creation loop. \<open>halted\<close> is set when an exception reached the
  handler at line 3152, which reports it and returns.
\<close>

record prepare_progress =
  queue :: "email_job list"
  prepared_jobs_count_this_action :: nat
  rows_with_data :: nat
  messages :: "prepare_message list"
  resolver :: resolver_state
  halted :: bool

text \<open>The admission of a prepared job (lines 3136-3150 and 3192-3205).\<close>

definition admit_prepared_job ::
  "nat \<Rightarrow> email_job option \<Rightarrow> prepare_progress \<Rightarrow> prepare_progress" where
  "admit_prepared_job row_num prepared_email_job p =
     (case prepared_email_job of
        None \<Rightarrow> p\<lparr>messages := messages p @ [JobPreparationFailed row_num]\<rparr>
      | Some job \<Rightarrow>
          if recipients_to_list job \<noteq> [] then
            p\<lparr>queue := queue p @ [job],
              prepared_jobs_count_this_action := prepared_jobs_count_this_action p + 1\<rparr>
          else p\<lparr>messages := messages p @ [FinalRecipientListEmpty row_num]\<rparr>)"

text \<open>
  One data row (the body of the loop of lines 3096-3150): an empty row is skipped, the
  next account is taken in rotation, the To field is resolved with an empty context and a
  cache of its own, and the job is prepared and admitted. The resolution of the To field
  (line 3117) is outside \<^verbatim>\<open>create_fully_prepared_email_job\<close>: an exception there is caught
  at line 3152 and ends the preparation.
\<close>

definition prepare_row ::
  "environment \<Rightarrow> campaign_inputs \<Rightarrow> nat \<Rightarrow> (string \<times> string) list \<Rightarrow> prepare_progress \<Rightarrow>
   prepare_progress" where
  "prepare_row env inputs row_num data_dict_for_this_row p =
     (if list_all (\<lambda>kv. py_strip (snd kv) = []) data_dict_for_this_row then
        p\<lparr>messages := messages p @ [EmptyRowSkipped row_num]\<rparr>
      else
        let current_sender_account_config =
              selected_accounts inputs ! (rows_with_data p mod length (selected_accounts inputs));
            p1 = p\<lparr>rows_with_data := rows_with_data p + 1\<rparr>
        in case resolve_all_placeholders_and_tags env (base_to_recipients_template inputs)
                  data_dict_for_this_row []
                  ((resolver p1)\<lparr>boundary_tag_cache := Map.empty\<rparr>) of
             (None, st1) \<Rightarrow>
               p1\<lparr>messages := messages p1 @ [DataListProcessingError],
                  resolver := st1, halted := True\<rparr>
           | (Some to_field_resolved_with_row_data, st1) \<Rightarrow>
               let initial_to_emails_list = parse_recipients env to_field_resolved_with_row_data
               in if initial_to_emails_list = [] \<and> \<not> custom_to_header_is_present inputs then
                    p1\<lparr>messages := messages p1 @ [NoRecipientsRowSkipped row_num],
                       resolver := st1\<rparr>
                  else
                    (case create_fully_prepared_email_job env initial_to_emails_list
                            (all_subject_templates inputs !
                               (prepared_jobs_count_this_action p1 mod
                                length (all_subject_templates inputs)))
                            (all_from_name_templates inputs !
                               (prepared_jobs_count_this_action p1 mod
                                length (all_from_name_templates inputs)))
                            (campaign_body_html_template inputs)
                            (campaign_body_plain_template inputs)
                            data_dict_for_this_row current_sender_account_config
                            (campaign_custom_headers inputs) st1 of
                       (prepared_email_job, st2) \<Rightarrow>
                         admit_prepared_job row_num prepared_email_job (p1\<lparr>resolver := st2\<rparr>)))"

fun prepare_rows ::
  "environment \<Rightarrow> campaign_inputs \<Rightarrow> nat \<Rightarrow> (string \<times> string) list list \<Rightarrow>
   prepare_progress \<Rightarrow> prepare_progress" where
  "prepare_rows env inputs row_num [] p = p"
| "prepare_rows env inputs row_num (row # rows) p =
     (let p1 = prepare_row env inputs row_num row p
      in if halted p1 then p1 else prepare_rows env inputs (row_num + 1) rows p1)"

text \<open>The single send without a data source (lines 3160-3205).\<close>

definition prepare_single ::
  "environment \<Rightarrow> campaign_inputs \<Rightarrow> prepare_progress \<Rightarrow> prepare_progress" where
  "prepare_single env inputs p =
     (let initial_to_emails_list =
            parse_recipients env (base_to_recipients_template inputs)
      in if initial_to_emails_list = [] \<and> \<not> custom_to_header_is_present inputs then p
         else
           (case create_fully_prepared_email_job env initial_to_emails_list
                   (all_subject_templates inputs ! 0) (all_from_name_templates inputs ! 0)
                   (campaign_body_html_template inputs) (campaign_body_plain_template inputs)
                   [] (selected_accounts inputs ! 0) (campaign_custom_headers inputs)
                   (resolver p) of
              (prepared_email_job, st) \<Rightarrow>
                admit_prepared_job 0 prepared_email_job (p\<lparr>resolver := st\<rparr>)))"

text \<open>
  The job-creation part of \<^verbatim>\<open>action_prepare_campaign_and_add_to_queue\<close>, after its
  validation of the inputs: the rows of the data source, or the single send when there is
  no data (\<open>data_rows = None\<close>). The count of this action starts at 0.
\<close>

definition prepare_campaign ::
  "environment \<Rightarrow> campaign_inputs \<Rightarrow> (string \<times> string) list list option \<Rightarrow>
   email_job list \<Rightarrow> resolver_state \<Rightarrow> prepare_progress" where
  "prepare_campaign env inputs data_rows queue_before st =
     (let p = \<lparr>queue = queue_before, prepared_jobs_count_this_action = 0,
               rows_with_data = 0, messages = [], resolver = st, halted = False\<rparr>
      in case data_rows of
           None \<Rightarrow> prepare_single env inputs p
         | Some rows \<Rightarrow> prepare_rows env inputs 1 rows p)"

definition demo_sender :: "(string \<times> string) list" where
  "demo_sender = [(''web_app_url'', ''https://script.example/exec''), (''email'', ''me@x.org'')]"

section \<open>Admission to the campaign queue\<close>

definition admitted_since :: "email_job list \<Rightarrow> prepare_progress \<Rightarrow> bool" where
  "admitted_since q0 p =
     (take (length q0) (queue p) = q0 \<and>
      length (queue p) = length q0 + prepared_jobs_count_this_action p \<and>
      list_all (\<lambda>job. recipients_to_list job \<noteq> []) (drop (length q0) (queue p)))"

text \<open>
  \<^verbatim>\<open>action_prepare_campaign_and_add_to_queue\<close> on the state of the application: the jobs
  admitted are appended to \<^verbatim>\<open>self.email_job_queue\<close>.
\<close>

definition action_prepare_campaign_and_add_to_queue ::
  "environment \<Rightarrow> campaign_inputs \<Rightarrow> (string \<times> string) list list option \<Rightarrow>
   resolver_state \<Rightarrow> email_job mailer_app \<Rightarrow> email_job mailer_app" where
  "action_prepare_campaign_and_add_to_queue env inputs data_rows st s =
     s\<lparr>email_job_queue := queue (prepare_campaign env inputs data_rows (email_job_queue s) st)\<rparr>"

definition has_recipients :: "email_job \<Rightarrow> bool" where
  "has_recipients job = (recipients_to_list job \<noteq> [])"

definition batches_have_recipients :: "email_job mailer_app \<Rightarrow> bool" where
  "batches_have_recipients s =
     list_all (\<lambda>b. list_all has_recipients (snd (snd b))) (started_batches s)"

text \<open>
  What admission establishes and dispatch relies on: every job of the campaign queue, and
  every job of a batch that was handed to a worker, has a recipient.
\<close>

definition recipients_kept :: "email_job mailer_app \<Rightarrow> bool" where
  "recipients_kept s =
     (list_all has_recipients (email_job_queue s) \<and> batches_have_recipients s)"

definition demo_mail_env :: environment where
  "demo_mail_env =
     demo_env\<lparr>substitute := (\<lambda>d t. if t = ''{{email}}'' then dict_get d ''email'' [] else t)\<rparr>"

definition demo_inputs :: campaign_inputs where
  "demo_inputs =
     \<lparr>base_to_recipients_template = ''{{email}}'',
      all_subject_templates = [''Hello''],
      all_from_name_templates = [''Shop''],
      campaign_body_html_template = None,
      campaign_body_plain_template = Some ''Dear customer'',
      campaign_custom_headers = Some ''To: '',
      custom_to_header_is_present = True,
      selected_accounts = [demo_sender]\<rparr>"

definition demo_rows :: "(string \<times> string) list list" where
  "demo_rows = [[(''email'', ''a@x.org'')], [(''email'', '' '')],
                [(''email'', ''''), (''name'', ''Bob'')]]"

text \<open>
  A job whose subject and HTML body are the same boundary tag over the symbols, and a
  random source whose first five draws pick \<^verbatim>\<open>{\<close>, \<^verbatim>\<open>!\<close>, \<^verbatim>\<open>|\<close>, \<^verbatim>\<open>@\<close>, \<^verbatim>\<open>}\<close> from
  the symbols and whose next two draws pick the first and the second option of a spintax
  choice.
\<close>

definition symbol_draws :: "nat \<Rightarrow> nat" where
  "symbol_draws n = (if n < 7 then [16, 0, 30, 1, 17, 0, 1] ! n else 0)"

definition symbol_env :: environment where
  "symbol_env = demo_env\<lparr>draw := symbol_draws\<rparr>"

definition symbol_job :: "email_job option \<times> resolver_state" where
  "symbol_job =
     create_fully_prepared_email_job symbol_env [''joe@x.org''] ''{{[bnds_5]}}'' ''Shop''
       (Some ''{{[bnds_5]}}'') None [] demo_sender None new_resolver_state"

text \<open>The application after the three demo rows were prepared and Start was accepted.\<close>

definition demo_ready :: "email_job mailer_app" where
  "demo_ready =
     (action_prepare_campaign_and_add_to_queue demo_mail_env demo_inputs (Some demo_rows)
        new_resolver_state (new_mailer_app 1 2))\<lparr>queue_processing_active := True\<rparr>"

chapter \<open>Properties\<close>

subsection \<open>Accounting of the job queue\<close>

lemma accounted_start_loop: "accounted s \<Longrightarrow> accounted (start_loop n s)"
proof (induction n arbitrary: s)
  case 0
  then show ?case by simp
next
  case (Suc n)
  show ?case
  proof (cases "job_queue s")
    case Nil
    then show ?thesis using Suc by simp
  next
    case (Cons job rest)
    show ?thesis
    proof (cases "is_running s")
      case False
      then show ?thesis using Suc Cons by simp
    next
      case True
      show ?thesis
      proof (cases "executor_shutdown s")
        case True
        then show ?thesis
          using Suc.prems Cons \<open>is_running s\<close>
          by (simp add: executor_submit_def accounted_def)
      next
        case False
        have "accounted (s\<lparr>job_queue := rest, next_future := next_future s + 1,
                 submitted := submitted s @ [job],
                 active_futures := active_futures s @ [(next_future s, job)]\<rparr>)"
          using Suc.prems Cons by (simp add: accounted_def)
        from Suc.IH [OF this] show ?thesis
          using Cons \<open>is_running s\<close> False by (simp add: executor_submit_def)
      qed
    qed
  qed
qed

lemma length_filter_map_of:
  "map_of xs k = Some v \<Longrightarrow> length (filter (\<lambda>p. fst p \<noteq> k) xs) < length xs"
proof (induction xs)
  case Nil
  then show ?case by simp
next
  case (Cons p xs)
  then show ?case
    by (cases p) (auto split: if_splits simp: less_Suc_eq_le)
qed

lemma accounted_drain_done:
  "accounted s \<Longrightarrow> accounted (snd (drain_done result fs acc s))"
proof (induction fs arbitrary: acc s)
  case Nil
  then show ?case by simp
next
  case (Cons f fs)
  show ?case
  proof (cases "map_of (active_futures s) f")
    case None
    then show ?thesis using Cons by simp
  next
    case (Some job)
    define s1 where "s1 = s\<lparr>active_futures := filter (\<lambda>p. fst p \<noteq> f) (active_futures s),
                     completed_jobs_count := completed_jobs_count s + 1\<rparr>"
    have acc1: "accounted s1"
      using Cons.prems length_filter_map_of [OF Some]
      by (simp add: accounted_def s1_def)
    show ?thesis
    proof (cases "job_queue s1")
      case Nil
      then show ?thesis
        using Some Cons.IH [OF acc1] by (simp add: s1_def Let_def)
    next
      case (Cons next_job rest)
      note q = this
      show ?thesis
      proof (cases "is_running s1")
        case False
        then show ?thesis
          using Some q Cons.IH [OF acc1] by (simp add: s1_def Let_def)
      next
        case True
        show ?thesis
        proof (cases "executor_shutdown s1")
          case True
          then show ?thesis
            using Some q \<open>is_running s1\<close> acc1
            by (simp add: s1_def Let_def executor_submit_def accounted_def)
        next
          case False
          have "accounted (s1\<lparr>job_queue := rest, next_future := next_future s1 + 1,
                   submitted := submitted s1 @ [next_job],
                   active_futures := active_futures s1 @ [(next_future s1, next_job)]\<rparr>)"
            using acc1 q by (simp add: accounted_def)
          from Cons.IH [OF this] show ?thesis
            using Some q \<open>is_running s1\<close> False
            by (simp add: s1_def Let_def executor_submit_def)
        qed
      qed
    qed
  qed
qed

lemma accounted_apply_call:
  assumes "accounted s"
  shows "accounted (apply_call c s)"
proof (cases c)
  case (AddJob job)
  then show ?thesis using assms by (simp add: add_job_def accounted_def)
next
  case (StartProcessing m)
  have "accounted (s\<lparr>is_running := True\<rparr>)"
    using assms by (simp add: accounted_def)
  then show ?thesis
    using StartProcessing by (simp add: start_processing_def accounted_start_loop)
next
  case (GetCompletedJobs is_done result)
  then show ?thesis
    using assms by (simp add: get_completed_jobs_def accounted_drain_done)
next
  case StopQueue
  then show ?thesis using assms by (simp add: stop_def accounted_def)
qed

lemma accounted_queue_calls: "accounted s \<Longrightarrow> accounted (queue_calls cs s)"
  by (induction cs arbitrary: s) (simp_all add: accounted_apply_call)

lemma accounted_new_job_queue: "accounted new_job_queue"
  by (simp add: accounted_def new_job_queue_def)

text \<open>
  C4. In every state an instance can reach through its methods, \<^verbatim>\<open>is_finished()\<close> is true
  exactly when the FIFO is empty, no future is active and the completed count equals the
  number of jobs ever submitted through \<^verbatim>\<open>add_job\<close>. (The source compares with \<open>\<ge>\<close>;
  the completed count never exceeds the total, so the two agree.)
\<close>

theorem is_finished_iff:
  "is_finished (queue_calls cs new_job_queue) =
     (job_queue (queue_calls cs new_job_queue) = [] \<and>
      active_futures (queue_calls cs new_job_queue) = [] \<and>
      completed_jobs_count (queue_calls cs new_job_queue) =
        total_jobs_submitted_to_q (queue_calls cs new_job_queue))"
  using accounted_queue_calls [OF accounted_new_job_queue, of cs]
  by (auto simp: is_finished_def accounted_def)

subsection \<open>Bounded concurrency of the job queue\<close>

lemma active_start_loop:
  "length (active_futures (start_loop n s)) \<le> length (active_futures s) + n"
proof (induction n arbitrary: s)
  case 0
  then show ?case by simp
next
  case (Suc n)
  show ?case
  proof (cases "job_queue s")
    case Nil
    then show ?thesis using Suc [of s] by simp
  next
    case (Cons job rest)
    show ?thesis
    proof (cases "is_running s \<and> \<not> executor_shutdown s")
      case False
      then show ?thesis using Suc [of s] Cons by (auto simp: executor_submit_def)
    next
      case True
      then show ?thesis
        using Cons Suc [of "s\<lparr>job_queue := rest, next_future := next_future s + 1,
                 submitted := submitted s @ [job],
                 active_futures := active_futures s @ [(next_future s, job)]\<rparr>"]
        by (simp add: executor_submit_def)
    qed
  qed
qed

lemma active_drain_done:
  "length (active_futures (snd (drain_done result fs acc s))) \<le> length (active_futures s)"
proof (induction fs arbitrary: acc s)
  case Nil
  then show ?case by simp
next
  case (Cons f fs)
  show ?case
  proof (cases "map_of (active_futures s) f")
    case None
    then show ?thesis using Cons by simp
  next
    case (Some job)
    define s1 where "s1 = s\<lparr>active_futures := filter (\<lambda>p. fst p \<noteq> f) (active_futures s),
                     completed_jobs_count := completed_jobs_count s + 1\<rparr>"
    have less: "length (active_futures s1) < length (active_futures s)"
      using length_filter_map_of [OF Some] by (simp add: s1_def)
    show ?thesis
    proof (cases "job_queue s1")
      case Nil
      then show ?thesis
        using Some Cons.IH [of _ s1] less
        by (simp add: s1_def Let_def) (meson le_trans less_imp_le)
    next
      case (Cons next_job rest)
      note q = this
      show ?thesis
      proof (cases "is_running s1")
        case False
        then show ?thesis
          using Some q Cons.IH [of _ s1] less
          by (simp add: s1_def Let_def)  (meson le_trans less_imp_le)
      next
        case True
        show ?thesis
        proof (cases "executor_shutdown s1")
          case True
          then show ?thesis
            using Some q \<open>is_running s1\<close> less
            by (simp add: s1_def Let_def executor_submit_def)
        next
          case False
          define s3 where "s3 = s1\<lparr>job_queue := rest, next_future := next_future s1 + 1,
                   submitted := submitted s1 @ [next_job],
                   active_futures := active_futures s1 @ [(next_future s1, next_job)]\<rparr>"
          have "length (active_futures s3) \<le> length (active_futures s)"
            using less by (simp add: s3_def)
          moreover have "length (active_futures (snd (drain_done result fs (acc @ [case result f of
                         Returned r \<Rightarrow> (job, Some r, None)
                       | Raised e \<Rightarrow> (job, None, Some e)]) s3))) \<le> length (active_futures s3)"
            by (rule Cons.IH)
          ultimately show ?thesis
            using Some q \<open>is_running s1\<close> False
            by (simp add: s1_def s3_def Let_def executor_submit_def)
        qed
      qed
    qed
  qed
qed

lemma active_no_start:
  "no_start_call cs \<Longrightarrow>
   length (active_futures (queue_calls cs s)) \<le> length (active_futures s)"
proof (induction cs arbitrary: s)
  case Nil
  then show ?case by simp
next
  case (Cons c cs)
  have rest: "no_start_call cs"
    using Cons.prems by (auto simp: no_start_call_def split: if_splits)
  have step: "length (active_futures (apply_call c s)) \<le> length (active_futures s)"
  proof (cases c)
    case (AddJob job)
    then show ?thesis by (simp add: add_job_def)
  next
    case (StartProcessing m)
    then show ?thesis using Cons.prems by (simp add: no_start_call_def)
  next
    case (GetCompletedJobs is_done result)
    then show ?thesis by (simp add: get_completed_jobs_def active_drain_done)
  next
    case StopQueue
    then show ?thesis by (simp add: stop_def)
  qed
  show ?case using Cons.IH [OF rest, of "apply_call c s"] step by simp
qed

lemma queue_calls_append: "queue_calls (cs @ ds) s = queue_calls ds (queue_calls cs s)"
  by (induction cs arbitrary: s) simp_all

text \<open>
  C7. For a queue started once with \<^verbatim>\<open>start_processing(worker, max_concurrent_tasks)\<close>, whatever
  was called before it and whatever polls, additions and stops follow, the number of active
  futures never exceeds \<open>max_concurrent_tasks\<close>: \<^verbatim>\<open>start_processing\<close> submits at most that
  many tasks, and \<^verbatim>\<open>get_completed_jobs\<close> submits at most one task per future it drains.
\<close>

theorem active_futures_bounded:
  assumes "no_start_call before" and "no_start_call after"
  shows "length (active_futures
           (queue_calls (before @ StartProcessing m # after) new_job_queue)) \<le> m"
proof -
  define s0 :: "'a job_queue_manager" where "s0 = queue_calls before new_job_queue"
  have "length (active_futures s0) \<le> length (active_futures (new_job_queue :: 'a job_queue_manager))"
    unfolding s0_def by (rule active_no_start [OF assms(1)])
  then have a0: "active_futures s0 = []" by (simp add: new_job_queue_def)
  have "length (active_futures (start_processing m s0)) \<le> m"
    using active_start_loop [of "min m (length (job_queue s0))" "s0\<lparr>is_running := True\<rparr>"] a0
    by (simp add: start_processing_def)
  moreover have "length (active_futures (queue_calls after (start_processing m s0)))
                 \<le> length (active_futures (start_processing m s0))"
    by (rule active_no_start [OF assms(2)])
  ultimately show ?thesis
    by (simp add: queue_calls_append s0_def)
qed

theorem active_futures_bounded_witness:
  "no_start_call ([AddJob (1::nat), AddJob 2, AddJob 3] :: (nat, bool) queue_call list) \<and>
   no_start_call ([GetCompletedJobs (\<lambda>f. f = 0) (\<lambda>f. Returned True), AddJob (4::nat)]
                    :: (nat, bool) queue_call list) \<and>
   length (active_futures (queue_calls
     (([AddJob (1::nat), AddJob 2, AddJob 3] :: (nat, bool) queue_call list) @
      StartProcessing 2 #
      [GetCompletedJobs (\<lambda>f. f = 0) (\<lambda>f. Returned True), AddJob 4]) new_job_queue)) \<le> 2 \<and>
   active_futures (queue_calls
     (([AddJob (1::nat), AddJob 2, AddJob 3] :: (nat, bool) queue_call list) @
      StartProcessing 2 #
      [GetCompletedJobs (\<lambda>f. f = 0) (\<lambda>f. Returned True), AddJob 4]) new_job_queue)
     = [(1, 2), (2, 3)]"
proof -
  have b: "no_start_call ([AddJob (1::nat), AddJob 2, AddJob 3] :: (nat, bool) queue_call list)"
    by (simp add: no_start_call_def)
  have a: "no_start_call ([GetCompletedJobs (\<lambda>f. f = 0) (\<lambda>f. Returned True), AddJob (4::nat)]
                    :: (nat, bool) queue_call list)"
    by (simp add: no_start_call_def)
  have v: "active_futures (queue_calls
     (([AddJob (1::nat), AddJob 2, AddJob 3] :: (nat, bool) queue_call list) @
      StartProcessing 2 #
      [GetCompletedJobs (\<lambda>f. f = 0) (\<lambda>f. Returned True), AddJob 4]) new_job_queue)
     = [(1, 2), (2, 3)]"
    by (simp add: new_job_queue_def add_job_def start_processing_def executor_submit_def
        get_completed_jobs_def numeral_2_eq_2 Let_def)
  show ?thesis using active_futures_bounded [OF b a, of 2] a b v by simp
qed

subsection \<open>MailerApp: the campaign orchestrator\<close>

lemma fifo_start_loop: "fifo_kept jobs s \<Longrightarrow> fifo_kept jobs (start_loop n s)"
proof (induction n arbitrary: s)
  case 0
  then show ?case by simp
next
  case (Suc n)
  show ?case
  proof (cases "job_queue s")
    case Nil
    then show ?thesis using Suc by simp
  next
    case (Cons job rest)
    show ?thesis
    proof (cases "is_running s")
      case False
      then show ?thesis using Suc Cons by simp
    next
      case True
      have "fifo_kept jobs (s\<lparr>job_queue := rest, next_future := next_future s + 1,
                 submitted := submitted s @ [job],
                 active_futures := active_futures s @ [(next_future s, job)]\<rparr>)"
        using Suc.prems Cons by (simp add: fifo_kept_def)
      from Suc.IH [OF this] show ?thesis
        using Cons True Suc.prems by (simp add: executor_submit_def fifo_kept_def)
    qed
  qed
qed

lemma fifo_drain_done:
  "fifo_kept jobs s \<Longrightarrow> fifo_kept jobs (snd (drain_done result fs acc s))"
proof (induction fs arbitrary: acc s)
  case Nil
  then show ?case by simp
next
  case (Cons f fs)
  show ?case
  proof (cases "map_of (active_futures s) f")
    case None
    then show ?thesis using Cons by simp
  next
    case (Some job)
    define s1 where "s1 = s\<lparr>active_futures := filter (\<lambda>p. fst p \<noteq> f) (active_futures s),
                     completed_jobs_count := completed_jobs_count s + 1\<rparr>"
    have k1: "fifo_kept jobs s1"
      using Cons.prems by (simp add: fifo_kept_def s1_def)
    show ?thesis
    proof (cases "job_queue s1")
      case Nil
      then show ?thesis
        using Some Cons.IH [OF k1] by (simp add: s1_def Let_def)
    next
      case (Cons next_job rest)
      note q = this
      show ?thesis
      proof (cases "is_running s1")
        case False
        then show ?thesis
          using Some q Cons.IH [OF k1] by (simp add: s1_def Let_def)
      next
        case True
        have "fifo_kept jobs (s1\<lparr>job_queue := rest, next_future := next_future s1 + 1,
                   submitted := submitted s1 @ [next_job],
                   active_futures := active_futures s1 @ [(next_future s1, next_job)]\<rparr>)"
          using k1 q by (simp add: fifo_kept_def)
        from Cons.IH [OF this] show ?thesis
          using Some q True k1
          by (simp add: s1_def Let_def executor_submit_def fifo_kept_def)
      qed
    qed
  qed
qed

lemma fifo_add_jobs:
  "fifo_kept jobs s \<Longrightarrow> fifo_kept (jobs @ batch) (add_jobs batch s)"
proof (induction batch arbitrary: jobs s)
  case Nil
  then show ?case by simp
next
  case (Cons job batch)
  have "fifo_kept (jobs @ [job]) (add_job job s)"
    using Cons.prems by (simp add: fifo_kept_def add_job_def)
  from Cons.IH [OF this] show ?case by simp
qed

lemma fifo_poll_loop: "fifo_kept jobs s \<Longrightarrow> fifo_kept jobs (poll_loop polls s)"
  by (induction polls arbitrary: s) (simp_all add: get_completed_jobs_def fifo_drain_done)

lemma fifo_batch_thread_run: "fifo_kept batch (batch_thread_run m batch polls)"
proof (cases "batch = []")
  case True
  then show ?thesis by (simp add: batch_thread_run_def fifo_kept_def new_job_queue_def)
next
  case False
  have "fifo_kept [] (new_job_queue :: 'a job_queue_manager)"
    by (simp add: fifo_kept_def new_job_queue_def)
  from fifo_add_jobs [OF this, of batch]
  have "fifo_kept batch (add_jobs batch new_job_queue)" by simp
  then have "fifo_kept batch ((add_jobs batch new_job_queue)\<lparr>is_running := True\<rparr>)"
    by (simp add: fifo_kept_def)
  then have "fifo_kept batch (start_processing m (add_jobs batch new_job_queue))"
    unfolding start_processing_def by (rule fifo_start_loop)
  then show ?thesis
    using False by (simp add: batch_thread_run_def fifo_poll_loop)
qed

lemma finished_batch_submitted:
  "is_finished (batch_thread_run m batch polls) \<Longrightarrow>
   submitted (batch_thread_run m batch polls) = batch"
  using fifo_batch_thread_run [of batch m polls]
  by (simp add: fifo_kept_def is_finished_def)

lemma process_events_Nil: "process_events [] k s = s"
  by (simp add: process_events_def)

lemma app_events_Nil: "app_events [] s = s"
  by (simp add: app_events_def run_handlers_def)

lemma app_events_Cons: "app_events (e # es) s = app_events es (handle_event e s)"
  by (simp add: app_events_def run_handlers_def)

lemma handle_event_alone: "handle_event (alone sig) s = handle_signal sig [] s"
  by (simp add: alone_def)

lemma handle_event_Event:
  "handle_event (Event sig delivered) s = handle_signal sig (map app_events delivered) s"
proof -
  have "map run_handlers (map (map handle_event) delivered) = map app_events delivered"
    by (simp add: app_events_def [abs_def] comp_def)
  then show ?thesis by (simp only: handle_event.simps)
qed

lemma prefix_finalize:
  "dispatched_prefix base s \<Longrightarrow>
   dispatched_prefix base (finalize_overall_queue_processing [] now s)"
  by (simp add: dispatched_prefix_def finalize_overall_queue_processing_def process_events_Nil)

lemma take_slice:
  "take c q @ take (min (c + k) (length q) - c) (drop c q) = take (min (c + k) (length q)) q"
proof -
  have "take (c + (min (c + k) (length q) - c)) q =
        take c q @ take (min (c + k) (length q) - c) (drop c q)"
    by (rule take_add)
  moreover have "c \<le> length q \<or> length q < c" by arith
  ultimately show ?thesis
    by (auto simp: min_def split: if_splits)
qed

lemma prefix_dispatch:
  assumes "dispatched_prefix base s"
  shows "dispatched_prefix base (dispatch_next_email_batch_to_worker [] now s)"
proof -
  let ?c = "current_job_index_for_dispatch s"
  let ?q = "email_job_queue s"
  let ?e = "min (?c + batch_size_for_main_workers s) (length ?q)"
  show ?thesis
  proof (cases "is_paused_flag s \<or> \<not> queue_processing_active s")
    case True
    then show ?thesis using assms by (auto simp: dispatch_next_email_batch_to_worker_def)
  next
    case False
    note running = this
    show ?thesis
    proof (cases "?c \<ge> length ?q")
      case True
      then show ?thesis
        using running assms prefix_finalize [OF assms, of now]
        by (simp add: dispatch_next_email_batch_to_worker_def)
    next
      case False
      note more = this
      define b where "b = take (?e - ?c) (drop ?c ?q)"
      have step: "dispatch_next_email_batch_to_worker [] now s =
        (if b = [] then
           (if active_batch_send_workers s = [] then finalize_overall_queue_processing [] now s
            else s)
         else s\<lparr>active_batch_send_workers := active_batch_send_workers s @ [next_worker s],
                started_batches := started_batches s @
                  [(next_worker s, max_concurrent_sends_per_batch_worker s, b)],
                next_worker := next_worker s + 1,
                current_job_index_for_dispatch := ?e\<rparr>)"
        using running more
        unfolding dispatch_next_email_batch_to_worker_def Let_def b_def process_events_Nil
        by presburger
      have cat: "concat (map (snd \<circ> snd) (drop base (started_batches s))) @ b = take ?e ?q"
        using assms take_slice [of ?c ?q "batch_size_for_main_workers s"]
        by (simp add: dispatched_prefix_def b_def)
      show ?thesis
      proof (cases "b = []")
        case True
        then show ?thesis
          using step assms prefix_finalize [OF assms, of now] by simp
      next
        case False
        then show ?thesis
          using step cat assms by (simp add: dispatched_prefix_def)
      qed
    qed
  qed
qed

lemma prefix_flags:
  "dispatched_prefix base (s\<lparr>queue_processing_active := a\<rparr>) = dispatched_prefix base s"
  "dispatched_prefix base (s\<lparr>is_paused_flag := b\<rparr>) = dispatched_prefix base s"
  "dispatched_prefix base (s\<lparr>pending_dispatch_timers := n\<rparr>) = dispatched_prefix base s"
  "dispatched_prefix base (s\<lparr>primary_emails_sent_since_last_test := k\<rparr>) =
     dispatched_prefix base s"
  "dispatched_prefix base (s\<lparr>overall_processing_start_time := t\<rparr>) = dispatched_prefix base s"
  "dispatched_prefix base (s\<lparr>total_emails_processed_overall := p\<rparr>) = dispatched_prefix base s"
  "dispatched_prefix base (s\<lparr>total_emails_successful_overall := u\<rparr>) =
     dispatched_prefix base s"
  "dispatched_prefix base (s\<lparr>active_batch_send_workers := ws\<rparr>) = dispatched_prefix base s"
  "dispatched_prefix base (s\<lparr>active_test_email_workers := ts\<rparr>) = dispatched_prefix base s"
  by (simp_all add: dispatched_prefix_def)

lemma prefix_start:
  assumes "dispatched_prefix base s" and "can_start_sending ok s"
  shows "dispatched_prefix base (action_start_queue_processing [] ok now s)"
proof -
  have lt: "current_job_index_for_dispatch s < length (email_job_queue s)"
    using assms(2) by (simp add: can_start_sending_def)
  show ?thesis
    using assms(1) lt
    by (auto simp: action_start_queue_processing_def Let_def prefix_flags process_events_Nil
             intro!: prefix_dispatch)
qed

lemma prefix_handle_signal:
  assumes "dispatched_prefix base s" and "\<not> is_confirmed_stop sig"
  shows "dispatched_prefix base (handle_signal sig [] s)"
proof (cases sig)
  case (StartClicked ok now)
  then show ?thesis using assms(1) by (simp add: prefix_start)
next
  case (DispatchTimer now)
  then show ?thesis using assms(1) by (simp add: prefix_dispatch prefix_flags)
next
  case (BatchWorkerFinished w stats now)
  then show ?thesis
    using assms(1)
    by (simp add: on_batch_worker_finished_def Let_def prefix_flags prefix_finalize
        process_events_Nil)
next
  case (PauseResumeClicked now)
  then show ?thesis
    using assms(1)
    by (simp add: action_toggle_pause_resume_queue_def Let_def prefix_flags prefix_finalize
        process_events_Nil)
next
  case (StopClicked confirmed now)
  then show ?thesis
    using assms by (simp add: action_stop_queue_processing_and_clear_def process_events_Nil)
next
  case (CampaignPrepared jobs)
  then show ?thesis using assms(1) by (simp add: dispatched_prefix_def process_events_Nil)
next
  case (PrimaryEmailSent job target trigger)
  then show ?thesis
    using assms(1)
    by (simp add: on_primary_email_success_trigger_test_def dispatch_single_test_email_def
        Let_def dispatched_prefix_def process_events_Nil)
next
  case (TestWorkerFinished w)
  then show ?thesis
    using assms(1)
    by (simp add: on_test_email_worker_finished_def prefix_flags process_events_Nil)
qed

lemma prefix_app_events:
  "dispatched_prefix base s \<Longrightarrow> no_confirmed_stop sigs \<Longrightarrow>
   dispatched_prefix base (app_events (map alone sigs) s)"
proof (induction sigs arbitrary: s)
  case Nil
  then show ?case by (simp add: app_events_Nil)
next
  case (Cons sig sigs)
  have e: "\<not> is_confirmed_stop sig" and es: "no_confirmed_stop sigs"
    using Cons.prems(2) by (auto simp: no_confirmed_stop_def split: if_splits)
  show ?case
    using Cons.IH [OF prefix_handle_signal [OF Cons.prems(1) e] es]
    by (simp add: app_events_Cons handle_event_alone)
qed

lemma take_min_length: "take (min k (length q)) q = take k q"
  by (simp add: min_def)

lemma restart_state:
  assumes "email_job_queue s \<noteq> []"
    and "current_job_index_for_dispatch s \<ge> length (email_job_queue s)"
    and "\<not> queue_processing_active s \<or> is_paused_flag s"
    and "batch_size_for_main_workers s > 0"
  shows "action_start_queue_processing [] True now s =
           s\<lparr>queue_processing_active := True, is_paused_flag := False,
             primary_emails_sent_since_last_test := 0,
             active_batch_send_workers := active_batch_send_workers s @ [next_worker s],
             started_batches := started_batches s @
               [(next_worker s, max_concurrent_sends_per_batch_worker s,
                 take (batch_size_for_main_workers s) (email_job_queue s))],
             next_worker := next_worker s + 1,
             current_job_index_for_dispatch :=
               min (batch_size_for_main_workers s) (length (email_job_queue s))\<rparr>"
proof -
  let ?q = "email_job_queue s"
  let ?K = "batch_size_for_main_workers s"
  have len: "0 < length ?q" using assms(1) by simp
  have ne: "current_job_index_for_dispatch s \<noteq> 0"
    using len assms(2) by linarith
  define s4 where "s4 = s\<lparr>queue_processing_active := True, is_paused_flag := False,
      primary_emails_sent_since_last_test := 0, current_job_index_for_dispatch := 0\<rparr>"
  have start: "action_start_queue_processing [] True now s =
               dispatch_next_email_batch_to_worker [] now s4"
    using assms(1,2,3) ne
    by (auto simp: action_start_queue_processing_def Let_def s4_def process_events_Nil)
  have mn: "(min ?K (length ?q) = 0) = False"
    using len assms(4) by simp
  have "dispatch_next_email_batch_to_worker [] now s4 =
        s4\<lparr>active_batch_send_workers := active_batch_send_workers s4 @ [next_worker s4],
           started_batches := started_batches s4 @
             [(next_worker s4, max_concurrent_sends_per_batch_worker s4,
               take (min ?K (length ?q)) ?q)],
           next_worker := next_worker s4 + 1,
           current_job_index_for_dispatch := min ?K (length ?q)\<rparr>"
    using len
    by (simp add: dispatch_next_email_batch_to_worker_def Let_def s4_def mn process_events_Nil)
  then show ?thesis
    by (simp add: start s4_def take_min_length)
qed

text \<open>
  C10. When \<^verbatim>\<open>action_start_queue_processing\<close> runs with a non-empty queue whose cursor is at or
  past the end (and processing is not running unpaused, senders are selected, the batch size
  is positive), the counters of processed and successful emails and the start time are not
  reset; only the cursor is, so the first batch dispatched is the head of the queue, and the
  statistics of a finished batch are added to the counters of the previous run. The handler
  is taken on its own (no other event is handled while it logs); the batches dispatched from
  then on, by events handled one after the other, are again the slices of the queue from
  index 0.
\<close>

theorem restart_keeps_counters:
  assumes "email_job_queue s \<noteq> []"
    and "current_job_index_for_dispatch s \<ge> length (email_job_queue s)"
    and "\<not> queue_processing_active s \<or> is_paused_flag s"
    and "batch_size_for_main_workers s > 0"
    and "no_confirmed_stop sigs"
  shows "total_emails_processed_overall (action_start_queue_processing [] True now s) =
           total_emails_processed_overall s \<and>
         total_emails_successful_overall (action_start_queue_processing [] True now s) =
           total_emails_successful_overall s \<and>
         overall_processing_start_time (action_start_queue_processing [] True now s) =
           overall_processing_start_time s \<and>
         started_batches (action_start_queue_processing [] True now s) =
           started_batches s @
             [(next_worker s, max_concurrent_sends_per_batch_worker s,
               take (batch_size_for_main_workers s) (email_job_queue s))] \<and>
         total_emails_processed_overall
           (on_batch_worker_finished [] w stats t
              (action_start_queue_processing [] True now s)) =
           total_emails_processed_overall s + completed_in_batch stats \<and>
         total_emails_successful_overall
           (on_batch_worker_finished [] w stats t
              (action_start_queue_processing [] True now s)) =
           total_emails_successful_overall s + successful_in_batch stats \<and>
         concat (map (snd \<circ> snd) (drop (length (started_batches s))
           (started_batches
              (app_events (map alone sigs) (action_start_queue_processing [] True now s))))) =
           take (current_job_index_for_dispatch
                   (app_events (map alone sigs) (action_start_queue_processing [] True now s)))
                (email_job_queue
                   (app_events (map alone sigs) (action_start_queue_processing [] True now s)))"
proof -
  note st = restart_state [OF assms(1-4), of now]
  have "dispatched_prefix (length (started_batches s))
          (action_start_queue_processing [] True now s)"
    by (simp add: st dispatched_prefix_def take_min_length)
  from prefix_app_events [OF this assms(5)]
  have run: "concat (map (snd \<circ> snd) (drop (length (started_batches s))
           (started_batches
              (app_events (map alone sigs) (action_start_queue_processing [] True now s))))) =
           take (current_job_index_for_dispatch
                   (app_events (map alone sigs) (action_start_queue_processing [] True now s)))
                (email_job_queue
                   (app_events (map alone sigs) (action_start_queue_processing [] True now s)))"
    by (simp add: dispatched_prefix_def)
  have fin: "total_emails_processed_overall
           (on_batch_worker_finished [] w stats t
              (action_start_queue_processing [] True now s)) =
           total_emails_processed_overall s + completed_in_batch stats"
      "total_emails_successful_overall
           (on_batch_worker_finished [] w stats t
              (action_start_queue_processing [] True now s)) =
           total_emails_successful_overall s + successful_in_batch stats"
    by (simp_all add: st on_batch_worker_finished_def Let_def
        finalize_overall_queue_processing_def process_events_Nil)
  show ?thesis
    using run fin by (simp add: st)
qed

lemmas app_defs = new_mailer_app_def can_start_sending_def action_start_queue_processing_def
  dispatch_next_email_batch_to_worker_def finalize_overall_queue_processing_def
  on_batch_worker_finished_def action_toggle_pause_resume_queue_def
  action_stop_queue_processing_and_clear_def on_primary_email_success_trigger_test_def
  dispatch_single_test_email_def on_test_email_worker_finished_def
  process_events_def app_events_Nil app_events_Cons handle_event_alone handle_event_Event

lemma demo_finished_state:
  "demo_finished_app =
     \<lparr>email_job_queue = [10, 20, 30], current_job_index_for_dispatch = 3,
      active_batch_send_workers = [], active_test_email_workers = [],
      max_concurrent_sends_per_batch_worker = 1, batch_size_for_main_workers = 2,
      queue_processing_active = False, is_paused_flag = False,
      total_emails_processed_overall = 3, total_emails_successful_overall = 3,
      overall_processing_start_time = 0, overall_processing_end_time = 6,
      primary_emails_sent_since_last_test = 0, pending_dispatch_timers = 0,
      next_worker = 2, started_batches = [(0, 1, [10, 20]), (1, 1, [30])],
      started_test_emails = [], stop_signalled = []\<rparr>"
  by (simp add: demo_finished_app_def demo_campaign_def demo_stats_def demo_stats_one_def
      app_defs Let_def)

theorem restart_keeps_counters_witness:
  "email_job_queue demo_finished_app \<noteq> [] \<and>
   current_job_index_for_dispatch demo_finished_app \<ge> length (email_job_queue demo_finished_app) \<and>
   total_emails_processed_overall demo_finished_app = 3 \<and>
   total_emails_processed_overall (action_start_queue_processing [] True 7 demo_finished_app) = 3 \<and>
   overall_processing_start_time (action_start_queue_processing [] True 7 demo_finished_app) = 0 \<and>
   started_batches (action_start_queue_processing [] True 7 demo_finished_app) =
     [(0, 1, [10, 20]), (1, 1, [30]), (2, 1, [10, 20])] \<and>
   total_emails_processed_overall
     (on_batch_worker_finished [] 2 demo_stats 8
        (action_start_queue_processing [] True 7 demo_finished_app)) = 5"
proof -
  have h1: "email_job_queue demo_finished_app \<noteq> []"
    and h2: "current_job_index_for_dispatch demo_finished_app
               \<ge> length (email_job_queue demo_finished_app)"
    and h3: "\<not> queue_processing_active demo_finished_app \<or> is_paused_flag demo_finished_app"
    and h4: "batch_size_for_main_workers demo_finished_app > 0"
    by (simp_all add: demo_finished_state)
  have h5: "no_confirmed_stop ([] :: nat app_signal list)"
    by (simp add: no_confirmed_stop_def)
  show ?thesis
    using restart_keeps_counters [OF h1 h2 h3 h4 h5, of 7 2 demo_stats 8] h1 h2
    by (simp add: demo_finished_state demo_stats_def)
qed

text \<open>
  C1 fails on the code. \<^verbatim>\<open>dispatch_next_email_batch_to_worker\<close> starts the worker, logs the
  dispatch, and only then advances the cursor; the log lets the event loop run, and a second
  dispatch timer that is pending fires there, finds the cursor where it was and starts
  another worker on the same slice. In the run \<open>reentrant_campaign\<close> (five jobs, batch size
  2, concurrency 1, paused and resumed, no stop) two timers are pending after two workers
  finished one right after the other, and the second fires inside the handler of the first.
  The run is driven to completion: every worker finishes and the campaign is finalized. Job
  50 was handed to two workers and is submitted to two executors, and six emails are counted
  for five jobs.
\<close>

theorem same_batch_dispatched_twice:
  "email_job_queue (app_events reentrant_campaign (new_mailer_app 1 2)) =
     [10, 20, 30, 40, 50] \<and>
   current_job_index_for_dispatch (app_events reentrant_campaign (new_mailer_app 1 2)) = 5 \<and>
   \<not> queue_processing_active (app_events reentrant_campaign (new_mailer_app 1 2)) \<and>
   active_batch_send_workers (app_events reentrant_campaign (new_mailer_app 1 2)) = [] \<and>
   started_batches (app_events reentrant_campaign (new_mailer_app 1 2)) =
     [(0, 1, [10, 20]), (1, 1, [30, 40]), (2, 1, [50]), (3, 1, [50])] \<and>
   list_all (\<lambda>(w, c, batch). is_finished (batch_thread_run c batch (demo_polls w)))
     (started_batches (app_events reentrant_campaign (new_mailer_app 1 2))) \<and>
   concat (map (\<lambda>(w, c, batch). submitted (batch_thread_run c batch (demo_polls w)))
            (started_batches (app_events reentrant_campaign (new_mailer_app 1 2)))) =
     [10, 20, 30, 40, 50, 50] \<and>
   total_emails_processed_overall (app_events reentrant_campaign (new_mailer_app 1 2)) = 6"
  by code_simp

text \<open>
  C9 fails on the code. While \<^verbatim>\<open>action_stop_queue_processing_and_clear\<close> waits for the
  workers, the success signal of an email that a worker sent before it stopped is queued; the
  log at line 2536, after the lists of workers were cleared, lets the event loop run, and
  \<^verbatim>\<open>on_primary_email_success_trigger_test\<close>, which reads neither the processing flags nor
  the queue, starts a test-email worker. When the stop returns, the job list is empty, the
  cursor is 0 and no batch worker is active, but the set of active test workers is not empty
  and one more email is on its way. The same happens when the signal is handled after the
  stop has returned.
\<close>

theorem test_email_started_inside_stop:
  "current_job_index_for_dispatch demo_mid_campaign < length (email_job_queue demo_mid_campaign) \<and>
   email_job_queue (handle_event stop_with_late_signal demo_mid_campaign) = [] \<and>
   current_job_index_for_dispatch (handle_event stop_with_late_signal demo_mid_campaign) = 0 \<and>
   active_batch_send_workers (handle_event stop_with_late_signal demo_mid_campaign) = [] \<and>
   stop_signalled (handle_event stop_with_late_signal demo_mid_campaign) = [0] \<and>
   active_test_email_workers (handle_event stop_with_late_signal demo_mid_campaign) = [1] \<and>
   started_test_emails (handle_event stop_with_late_signal demo_mid_campaign) =
     [(1, ''qa@example.com'', 10)] \<and>
   active_test_email_workers
     (app_events [alone (StopClicked True 1), alone (PrimaryEmailSent 10 ''qa@example.com'' 1)]
        demo_mid_campaign) = [1]"
  by code_simp

lemma prefix_new_mailer_app: "dispatched_prefix 0 (new_mailer_app m k)"
  by (simp add: dispatched_prefix_def new_mailer_app_def)

lemma concat_submitted:
  "list_all (\<lambda>(w, m, batch). is_finished (batch_thread_run m batch (polls_of w))) bs \<Longrightarrow>
   concat (map (\<lambda>(w, m, batch). submitted (batch_thread_run m batch (polls_of w))) bs) =
   concat (map (snd \<circ> snd) bs)"
  by (induction bs) (auto simp: finished_batch_submitted)

text \<open>
  Without the interleaving the property holds: in a run without a confirmed stop whose
  events are handled one after the other (none while a handler logs), the batches handed to
  workers are disjoint contiguous slices of the job list, and when the cursor has reached
  the end and every batch was driven to \<^verbatim>\<open>is_finished()\<close> by its worker, the jobs submitted
  to the executors are exactly the job list, each job once.
\<close>

lemma undisturbed_run_submits_each_job_once:
  assumes "no_confirmed_stop sigs"
    and "current_job_index_for_dispatch (app_events (map alone sigs) (new_mailer_app m k)) \<ge>
           length (email_job_queue (app_events (map alone sigs) (new_mailer_app m k)))"
    and "list_all (\<lambda>(w, c, batch). is_finished (batch_thread_run c batch (polls_of w)))
           (started_batches (app_events (map alone sigs) (new_mailer_app m k)))"
  shows "concat (map (\<lambda>(w, c, batch). submitted (batch_thread_run c batch (polls_of w)))
           (started_batches (app_events (map alone sigs) (new_mailer_app m k)))) =
         email_job_queue (app_events (map alone sigs) (new_mailer_app m k))"
proof -
  have p: "dispatched_prefix 0 (app_events (map alone sigs) (new_mailer_app m k))"
    by (rule prefix_app_events [OF prefix_new_mailer_app assms(1)])
  show ?thesis
    using p assms(2) concat_submitted [OF assms(3)]
    by (auto simp: dispatched_prefix_def)
qed

subsection \<open>Conservation of tokens\<close>

lemma capped_try_acquire:
  assumes "capped R B l"
  shows "capped R B (snd (try_acquire now l)) \<and> last_update (snd (try_acquire now l)) = now"
  using assms by (auto simp: capped_def try_acquire_def Let_def min_def)

lemma capped_locked_passes:
  assumes "capped R B l"
  shows "capped R B (snd (locked_passes nows l granted)) \<and>
         last_update (snd (locked_passes nows l granted)) = last (last_update l # nows)"
  using assms
proof (induction nows arbitrary: l granted)
  case Nil
  then show ?case by simp
next
  case (Cons now nows)
  obtain ok l' where ta: "try_acquire now l = (ok, l')"
    by (cases "try_acquire now l")
  have c': "capped R B l'" and lu: "last_update l' = now"
    using capped_try_acquire [OF Cons.prems, of now] ta by simp_all
  from Cons.IH [OF c', of "if ok then granted + 1 else granted"]
  show ?case using ta lu by simp
qed

lemma capped_new: "capped (max r (1 / 10)) (max b 1) (new_rate_limiter r b t0)"
  by (simp add: capped_def new_rate_limiter_def)

lemma conserved_start:
  assumes "capped R B l" and "last_update l \<le> t1" and "t1 \<le> t_end"
  shows "conserved t1 t_end R B 0 l"
  using assms by (auto simp: conserved_def capped_def)

lemma conserved_try_acquire:
  assumes "conserved t1 t_end R B granted l" and "last_update l \<le> now" and "t1 \<le> now"
    and "now \<le> t_end"
  shows "conserved t1 t_end R B (if fst (try_acquire now l) then granted + 1 else granted)
           (snd (try_acquire now l)) \<and>
         last_update (snd (try_acquire now l)) = now"
proof -
  let ?new = "min B (tokens l + (now - last_update l) * R)"
  have R: "0 \<le> R" and B: "1 \<le> B"
    and fR: "emails_per_second l = R" and fB: "burst_size l = B"
    and bal: "if last_update l < t1 then granted = 0
              else real granted + tokens l \<le> B + R * (last_update l - t1)"
    and pos: "granted = 0 \<or> 0 \<le> tokens l"
    using assms(1) by (simp_all add: conserved_def capped_def)
  have grow: "0 \<le> (now - last_update l) * R"
    using R assms(2) by simp
  have cap: "?new \<le> B" by simp
  have bal': "real granted + ?new \<le> B + R * (now - t1)"
  proof (cases "last_update l < t1")
    case True
    then have "granted = 0" using bal by simp
    moreover have "0 \<le> R * (now - t1)" using R assms(3) by simp
    ultimately show ?thesis using cap by linarith
  next
    case False
    then have b: "real granted + tokens l \<le> B + R * (last_update l - t1)"
      using bal by simp
    have "R * (last_update l - t1) + (now - last_update l) * R = R * (now - t1)"
      by (simp add: algebra_simps)
    moreover have "?new \<le> tokens l + (now - last_update l) * R" by simp
    ultimately show ?thesis using b by linarith
  qed
  have pos': "granted = 0 \<or> 0 \<le> ?new"
    using pos grow B by (auto simp: min_def)
  have nlt: "\<not> now < t1" using assms(3) by simp
  show ?thesis
  proof (cases "1 \<le> ?new")
    case True
    then show ?thesis
      using bal' cap R B fR fB assms(3,4) nlt
      by (simp add: try_acquire_def Let_def conserved_def capped_def)
  next
    case False
    then show ?thesis
      using bal' pos' cap R B fR fB assms(3,4) nlt
      by (simp add: try_acquire_def Let_def conserved_def capped_def)
  qed
qed

lemma conserved_acquire_loop:
  assumes "conserved t1 t_end R B granted l"
    and "sorted (last_update l # clock)"
    and "\<forall>t\<in>set clock. t1 \<le> t \<and> t \<le> t_end"
  shows "case acquire_loop timeout start_time clock l of
           (outcome, l', rest) \<Rightarrow>
             conserved t1 t_end R B (if outcome = Some True then granted + 1 else granted) l' \<and>
             sorted (last_update l' # rest) \<and> (\<forall>t\<in>set rest. t1 \<le> t \<and> t \<le> t_end)"
  using assms
proof (induction timeout start_time clock l rule: acquire_loop.induct)
  case (1 timeout start_time l)
  then show ?case by simp
next
  case (2 timeout start_time t l)
  then show ?case by simp
next
  case (3 timeout start_time t now clock l)
  show ?case
  proof (cases "t - start_time < timeout")
    case False
    then show ?thesis using "3.prems" by simp
  next
    case True
    have le: "last_update l \<le> now" and st: "t1 \<le> now" and fin: "now \<le> t_end"
      using "3.prems"(2,3) by simp_all
    note step = conserved_try_acquire [OF "3.prems"(1) le st fin]
    obtain ok l' where ta: "try_acquire now l = (ok, l')"
      by (cases "try_acquire now l")
    have c': "conserved t1 t_end R B (if ok then granted + 1 else granted) l'"
      and lu: "last_update l' = now"
      using step ta by simp_all
    have srt: "sorted (last_update l' # clock)"
      and bnd: "\<forall>t\<in>set clock. t1 \<le> t \<and> t \<le> t_end"
      using "3.prems"(2,3) lu by simp_all
    show ?thesis
    proof (cases ok)
      case True
      then show ?thesis
        using \<open>t - start_time < timeout\<close> ta c' srt bnd by simp
    next
      case False
      have c'': "conserved t1 t_end R B granted l'" using c' False by simp
      from "3.IH" [OF \<open>t - start_time < timeout\<close> ta [symmetric] _ c'' srt bnd]
      show ?thesis
        using \<open>t - start_time < timeout\<close> ta False by simp
    qed
  qed
qed

lemma conserved_acquire:
  assumes "conserved t1 t_end R B granted l"
    and "sorted (last_update l # clock)"
    and "\<forall>t\<in>set clock. t1 \<le> t \<and> t \<le> t_end"
  shows "case acquire timeout clock l of
           (outcome, l', rest) \<Rightarrow>
             conserved t1 t_end R B (if outcome = Some True then granted + 1 else granted) l' \<and>
             sorted (last_update l' # rest) \<and> (\<forall>t\<in>set rest. t1 \<le> t \<and> t \<le> t_end)"
proof (cases clock)
  case Nil
  then show ?thesis using assms by (simp add: acquire_def)
next
  case (Cons start_time rest)
  have "sorted (last_update l # rest)" and "\<forall>t\<in>set rest. t1 \<le> t \<and> t \<le> t_end"
    using assms(2,3) Cons by auto
  from conserved_acquire_loop [OF assms(1) this]
  show ?thesis using Cons by (simp add: acquire_def)
qed

lemma conserved_acquire_calls:
  assumes "conserved t1 t_end R B granted l"
    and "sorted (last_update l # clock)"
    and "\<forall>t\<in>set clock. t1 \<le> t \<and> t \<le> t_end"
  shows "conserved t1 t_end R B (fst (acquire_calls timeouts clock l granted))
           (snd (acquire_calls timeouts clock l granted))"
  using assms
proof (induction timeouts arbitrary: clock l granted)
  case Nil
  then show ?case by simp
next
  case (Cons timeout timeouts)
  obtain outcome l' rest where a: "acquire timeout clock l = (outcome, l', rest)"
    by (cases "acquire timeout clock l")
  from conserved_acquire [OF Cons.prems, of timeout]
  have "conserved t1 t_end R B (if outcome = Some True then granted + 1 else granted) l'"
    and "sorted (last_update l' # rest)" and "\<forall>t\<in>set rest. t1 \<le> t \<and> t \<le> t_end"
    using a by simp_all
  from Cons.IH [OF this] show ?case using a by simp
qed

lemma conserved_locked_passes:
  assumes "conserved t1 t_end R B granted l"
    and "sorted (last_update l # nows)"
    and "\<forall>t\<in>set nows. t1 \<le> t \<and> t \<le> t_end"
  shows "conserved t1 t_end R B (fst (locked_passes nows l granted))
           (snd (locked_passes nows l granted))"
  using assms
proof (induction nows arbitrary: l granted)
  case Nil
  then show ?case by simp
next
  case (Cons now nows)
  have le: "last_update l \<le> now" and st: "t1 \<le> now" and fin: "now \<le> t_end"
    using Cons.prems(2,3) by simp_all
  note step = conserved_try_acquire [OF Cons.prems(1) le st fin]
  obtain ok l' where ta: "try_acquire now l = (ok, l')"
    by (cases "try_acquire now l")
  have c': "conserved t1 t_end R B (if ok then granted + 1 else granted) l'"
    and lu: "last_update l' = now"
    using step ta by simp_all
  have srt: "sorted (last_update l' # nows)"
    and bnd: "\<forall>t\<in>set nows. t1 \<le> t \<and> t \<le> t_end"
    using Cons.prems(2,3) lu by simp_all
  from Cons.IH [OF c' srt bnd] show ?case using ta by simp
qed

lemma conserved_bound:
  assumes "conserved t1 t_end R B granted l" and "t1 \<le> t_end"
  shows "real granted \<le> B + R * (t_end - t1)"
proof (cases "granted = 0")
  case True
  have "0 \<le> R * (t_end - t1)"
    using assms by (simp add: conserved_def capped_def)
  then show ?thesis using True assms by (simp add: conserved_def capped_def)
next
  case False
  then have ge: "\<not> last_update l < t1"
    and bal: "real granted + tokens l \<le> B + R * (last_update l - t1)"
    and pos: "0 \<le> tokens l"
    using assms(1) by (auto simp: conserved_def split: if_splits)
  have "R * (last_update l - t1) \<le> R * (t_end - t1)"
    using assms by (intro mult_left_mono) (simp_all add: conserved_def capped_def)
  then show ?thesis using bal pos by linarith
qed

lemma conserved_bound_last_pass:
  assumes "conserved t1 t_end R B granted l"
  shows "real granted \<le> B + R * (max t1 (last_update l) - t1)"
proof (cases "granted = 0")
  case True
  have "0 \<le> R * (max t1 (last_update l) - t1)"
    using assms by (simp add: conserved_def capped_def)
  then show ?thesis using True assms by (simp add: conserved_def capped_def)
next
  case False
  then have ge: "\<not> last_update l < t1"
    and bal: "real granted + tokens l \<le> B + R * (last_update l - t1)"
    and pos: "0 \<le> tokens l"
    using assms(1) by (auto simp: conserved_def split: if_splits)
  have "max t1 (last_update l) = last_update l" using ge by simp
  then show ?thesis using bal pos by simp
qed

lemma sorted_le_last: "sorted (t0 # clock) \<Longrightarrow> \<forall>t\<in>set (t0 # clock). t \<le> last (t0 # clock)"
proof (induction clock arbitrary: t0)
  case Nil
  then show ?case by simp
next
  case (Cons c clock)
  have "sorted (c # clock)" using Cons.prems by simp
  from Cons.IH [OF this] have "\<forall>t\<in>set (c # clock). t \<le> last (c # clock)" .
  moreover have "t0 \<le> c" using Cons.prems by simp
  ultimately show ?case by auto
qed

text \<open>
  C2. Take a limiter with stored rate \<open>R\<close> and burst capacity \<open>B\<close>, in whatever state earlier
  passes through the locked block have left it (none, or any number of them at the readings
  \<open>earlier\<close>, so also after an idle period), and a clock that does not run backwards. Over any
  sequence of \<^verbatim>\<open>acquire\<close> calls whose first reading of the clock is \<open>t1\<close>, the number of calls
  that return True is at most \<open>B + R \<times> T\<close>, where \<open>T\<close> is the time from \<open>t1\<close> to the last
  reading of the clock by these calls. The same bound holds for any sequence of passes
  through the locked block, which covers calls interleaved by several threads. (Real
  arithmetic; each success takes one token, tokens accrue at elapsed \<open>\<times>\<close> rate, and the cap of
  the count at the burst size is what bounds the tokens at \<open>t1\<close>.) The bound also holds
  with \<open>T\<close> taken only up to the last pass through the locked block that the calls made.
\<close>

theorem successes_bounded_by_burst_plus_rate_time:
  assumes "sorted (t0 # (earlier @ (t1 # clock)))"
  shows "real (fst (acquire_calls timeouts (t1 # clock)
                      (snd (locked_passes earlier (new_rate_limiter r b t0) 0)) 0))
           \<le> burst_size (new_rate_limiter r b t0) +
              emails_per_second (new_rate_limiter r b t0) * (last (t1 # clock) - t1) \<and>
         real (fst (locked_passes (t1 # clock)
                      (snd (locked_passes earlier (new_rate_limiter r b t0) 0)) 0))
           \<le> burst_size (new_rate_limiter r b t0) +
              emails_per_second (new_rate_limiter r b t0) * (last (t1 # clock) - t1) \<and>
         real (fst (acquire_calls timeouts (t1 # clock)
                      (snd (locked_passes earlier (new_rate_limiter r b t0) 0)) 0))
           \<le> burst_size (new_rate_limiter r b t0) +
              emails_per_second (new_rate_limiter r b t0) *
                (max t1 (last_update
                           (snd (acquire_calls timeouts (t1 # clock)
                                   (snd (locked_passes earlier (new_rate_limiter r b t0) 0)) 0)))
                 - t1)"
proof -
  let ?l = "snd (locked_passes earlier (new_rate_limiter r b t0) 0)"
  let ?R = "max r (1 / 10)" and ?B = "max b 1"
  let ?E = "last (t1 # clock)"
  have s1: "sorted (t1 # clock)" and s0: "sorted (t0 # earlier)"
    and le1: "\<forall>t\<in>set (t0 # earlier). t \<le> t1"
    using assms by (auto simp: sorted_append)
  have bnd: "\<forall>t\<in>set (t1 # clock). t \<le> ?E"
    by (rule sorted_le_last [OF s1])
  then have t1: "t1 \<le> ?E" by simp
  have win: "\<forall>t\<in>set (t1 # clock). t1 \<le> t \<and> t \<le> ?E"
    using bnd s1 by auto
  have cp: "capped ?R ?B ?l"
    and lu: "last_update ?l = last (last_update (new_rate_limiter r b t0) # earlier)"
    using capped_locked_passes [where nows = earlier and granted = 0 and l = "new_rate_limiter r b t0",
        OF capped_new] by simp_all
  have lu0: "last_update (new_rate_limiter r b t0) = t0"
    by (simp add: new_rate_limiter_def)
  have "last (t0 # earlier) \<in> set (t0 # earlier)" by (rule last_in_set) simp
  then have lul: "last_update ?l \<le> t1" using le1 lu lu0 by simp
  note c0 = conserved_start [OF cp lul t1]
  have srt: "sorted (last_update ?l # t1 # clock)"
    using s1 lul by fastforce
  have f: "burst_size (new_rate_limiter r b t0) = ?B"
    "emails_per_second (new_rate_limiter r b t0) = ?R"
    by (simp_all add: new_rate_limiter_def)
  show ?thesis
    using conserved_bound [OF conserved_acquire_calls [OF c0 srt win, of timeouts] t1]
      conserved_bound [OF conserved_locked_passes [OF c0 srt win] t1]
      conserved_bound_last_pass [OF conserved_acquire_calls [OF c0 srt win, of timeouts]]
    unfolding f by blast
qed

text \<open>
  Rate 2 per second, burst 1, created at time 0 and idle for 100 seconds: two calls succeed
  within the half second after 100, which is the bound.
\<close>

theorem successes_bounded_witness:
  "sorted [0, 100, 100, 100, 100, 100, 100, 100 + 1 / 100, 100 + 1 / 2 :: real] \<and>
   fst (acquire_calls [30, 30] [100, 100, 100, 100, 100, 100, 100 + 1 / 100, 100 + 1 / 2]
          (snd (locked_passes [] (new_rate_limiter 2 1 0) 0)) 0) = 2 \<and>
   burst_size (new_rate_limiter 2 1 0) +
     emails_per_second (new_rate_limiter 2 1 0) *
       (last [100, 100, 100, 100, 100, 100, 100 + 1 / 100, 100 + 1 / 2] - 100) = 2"
proof -
  have h: "sorted (0 # ([] @ (100 # [100, 100, 100, 100, 100, 100 + 1 / 100, 100 + 1 / 2 :: real])))"
    by simp
  have v: "fst (acquire_calls [30, 30] [100, 100, 100, 100, 100, 100, 100 + 1 / 100, 100 + 1 / 2]
                  (snd (locked_passes [] (new_rate_limiter 2 1 0) 0)) 0) = 2"
    by (simp add: acquire_def try_acquire_def new_rate_limiter_def Let_def)
  have w: "burst_size (new_rate_limiter 2 1 0) +
     emails_per_second (new_rate_limiter 2 1 0) *
       (last [100, 100, 100, 100, 100, 100, 100 + 1 / 100, 100 + 1 / 2] - 100) = 2"
    by (simp add: new_rate_limiter_def)
  show ?thesis
    using successes_bounded_by_burst_plus_rate_time
      [where timeouts = "[30, 30]" and r = 2 and b = 1, OF h] v w by simp
qed

subsection \<open>Spintax\<close>

lemma replace_first_same: "replace_first old old s = s"
proof (induction s)
  case Nil
  then show ?case by simp
next
  case (Cons c cs)
  show ?case
  proof (cases "prefix old (c # cs)")
    case True
    then obtain zs where z: "c # cs = old @ zs" by (auto simp: prefix_def)
    have "old @ drop (length old) (c # cs) = c # cs"
      unfolding z by simp
    then show ?thesis using True by simp
  next
    case False
    then show ?thesis using Cons by simp
  qed
qed

lemma spintax_loop_stuck:
  "search_innermost text = Some (before, content, rest) \<Longrightarrow> CHR ''|'' \<notin> set content \<Longrightarrow>
   spintax_loop rnd k text n = (text, n)"
  by (induction k) (simp_all add: replace_first_same)

text \<open>
  C3 fails on the code. \<^verbatim>\<open>search\<close> always starts at the beginning of the text, and a brace
  pair without \<open>|\<close> is replaced by itself, so every one of the ten iterations finds the
  same pair again: in \<^verbatim>\<open>{x} {A|B}\<close> the construct \<^verbatim>\<open>{A|B}\<close> is never resolved, whatever the
  random source. On its own, \<^verbatim>\<open>{A|B}\<close> resolves to A or to B.
\<close>

theorem pipeless_braces_block_later_spintax:
  "process_spintax_in_text rnd ''{x} {A|B}'' n = (''{x} {A|B}'', n) \<and>
   process_spintax_in_text (\<lambda>i. 0) ''{A|B}'' 0 = (''A'', 1) \<and>
   process_spintax_in_text (\<lambda>i. 1) ''{A|B}'' 0 = (''B'', 1)"
proof -
  have s: "search_innermost ''{x} {A|B}'' = Some ([], ''x'', '' {A|B}'')"
    by simp
  have "spintax_loop rnd 10 ''{x} {A|B}'' n = (''{x} {A|B}'', n)"
    by (rule spintax_loop_stuck [OF s]) simp
  moreover have "process_spintax_in_text (\<lambda>i. 0) ''{A|B}'' 0 = (''A'', 1)"
    by (simp add: process_spintax_in_text_def eval_nat_numeral random_choice_def py_strip_def
        py_isspace_def Let_def)
  moreover have "process_spintax_in_text (\<lambda>i. 1) ''{A|B}'' 0 = (''B'', 1)"
    by (simp add: process_spintax_in_text_def eval_nat_numeral random_choice_def py_strip_def
        py_isspace_def Let_def)
  ultimately show ?thesis
    by (simp add: process_spintax_in_text_def)
qed

subsection \<open>Dynamic tags\<close>

text \<open>
  C6, as amended. A matched tag other than \<^verbatim>\<open>#{{[token]}}\<close> whose content, stripped of
  surrounding whitespace, is neither one of the ten names nor \<open>rnd\<close> or \<open>bnd\<close> followed by one
  or two characters of \<open>n, a, l, u, s\<close>, an underscore and a length that is from 1 to 1024 or
  is written with more than 4300 digits, is returned unchanged, nothing is raised, and the
  state (cache, random source) is untouched.
\<close>

theorem unrecognized_tag_left_unchanged:
  assumes "unrecognized_tag full_matched_tag"
  shows "dynamic_tag_replacer_func env ctx full_matched_tag st = (Some full_matched_tag, st)"
proof (cases "tag_content full_matched_tag")
  case None
  then show ?thesis
    using assms by (simp add: dynamic_tag_replacer_func_def unrecognized_tag_def)
next
  case (Some content)
  have nt: "full_matched_tag \<noteq> ''#{{[token]}}''"
    and names: "py_strip content \<notin> set generator_names"
    using assms Some by (simp_all add: unrecognized_tag_def)
  show ?thesis
  proof (cases "var_len_tag_match (py_strip content)")
    case None
    then show ?thesis
      using nt Some names
      by (simp add: dynamic_tag_replacer_func_def generator_names_def Let_def)
  next
    case (Some m)
    obtain kind cs ds where m: "m = (kind, cs, ds)" by (cases m)
    have "\<not> valid_length ds" and "\<not> refused_length ds"
      using assms \<open>tag_content full_matched_tag = Some content\<close> Some m
      by (simp_all add: unrecognized_tag_def)
    then obtain n where n: "py_int ds = Some n" and out: "\<not> (0 < n \<and> n \<le> 1024)"
      by (auto simp: valid_length_def refused_length_def)
    show ?thesis
      using nt \<open>tag_content full_matched_tag = Some content\<close> names Some m n out
      by (simp add: dynamic_tag_replacer_func_def generator_names_def Let_def)
  qed
qed

lemmas tag_eval = dynamic_tag_replacer_func_def tag_content_def var_len_tag_match_def
  py_strip_def py_isspace_def py_int_def int_max_str_digits_def in_nalus_def is_digit_def
  digits_def generator_names_def valid_length_def refused_length_def unrecognized_tag_def
  claimed_generator_def charset_family_def returned_def and_then_def Let_def

theorem unrecognized_tag_left_unchanged_witness:
  "unrecognized_tag ''{{[unknown]}}'' \<and> unrecognized_tag ''{{[rndn_0]}}'' \<and>
   unrecognized_tag ''{{[bndx_5]}}'' \<and> unrecognized_tag ''{{[bnda_1025]}}'' \<and>
   dynamic_tag_replacer_func demo_env [] ''{{[unknown]}}'' new_resolver_state =
     (Some ''{{[unknown]}}'', new_resolver_state) \<and>
   dynamic_tag_replacer_func demo_env [] ''{{[rndn_0]}}'' new_resolver_state =
     (Some ''{{[rndn_0]}}'', new_resolver_state) \<and>
   dynamic_tag_replacer_func demo_env [] ''{{[bndx_5]}}'' new_resolver_state =
     (Some ''{{[bndx_5]}}'', new_resolver_state) \<and>
   dynamic_tag_replacer_func demo_env [] ''{{[bnda_1025]}}'' new_resolver_state =
     (Some ''{{[bnda_1025]}}'', new_resolver_state)"
proof -
  have u1: "unrecognized_tag ''{{[unknown]}}''" by (simp add: tag_eval)
  have u2: "unrecognized_tag ''{{[rndn_0]}}''" by (simp add: tag_eval)
  have u3: "unrecognized_tag ''{{[bndx_5]}}''" by (simp add: tag_eval)
  have u4: "unrecognized_tag ''{{[bnda_1025]}}''" by (simp add: tag_eval)
  show ?thesis
    using u1 u2 u3 u4
      unrecognized_tag_left_unchanged [OF u1, of demo_env "[]" new_resolver_state]
      unrecognized_tag_left_unchanged [OF u2, of demo_env "[]" new_resolver_state]
      unrecognized_tag_left_unchanged [OF u3, of demo_env "[]" new_resolver_state]
      unrecognized_tag_left_unchanged [OF u4, of demo_env "[]" new_resolver_state]
    by simp
qed

lemma digit_facts:
  assumes "is_digit c"
  shows "c \<noteq> CHR '']''" and "c \<noteq> CHR 0x0A" and "\<not> py_isspace c"
  using assms by (auto simp: is_digit_def digits_def py_isspace_def)

lemma tag_close_digits:
  "list_all is_digit ds \<Longrightarrow> tag_close (ds @ '']}}'') = Some (ds, [])"
proof (induction ds)
  case Nil
  then show ?case by simp
next
  case (Cons d ds)
  have d: "is_digit d" and ds: "list_all is_digit ds" using Cons.prems by simp_all
  show ?case
    using Cons.IH [OF ds] digit_facts [OF d] by simp
qed

lemma py_strip_unpadded:
  assumes "s \<noteq> []" and "\<not> py_isspace (hd s)" and "\<not> py_isspace (last s)"
  shows "py_strip s = s"
proof -
  have a: "dropWhile py_isspace s = s"
    using assms(1,2) by (cases s) simp_all
  obtain x xs where r: "rev s = x # xs"
    using assms(1) by (cases "rev s") simp_all
  have "x = last s"
    using r assms(1) by (metis hd_rev list.sel(1))
  then have b: "dropWhile py_isspace (rev s) = rev s"
    using assms(3) unfolding r by simp
  show ?thesis by (simp add: py_strip_def a b)
qed

lemma var_len_bndn:
  assumes "list_all is_digit ds" and "ds \<noteq> []"
  shows "var_len_tag_match (''bndn_'' @ ds) = Some (''bnd'', ''n'', ds)"
proof -
  obtain d ds' where c: "ds = d # ds'"
    using assms(2) by (cases ds) simp_all
  show ?thesis
    using assms(1) c by (simp add: var_len_tag_match_def in_nalus_def Let_def)
qed

text \<open>
  A length of more than 4300 digits is refused by \<^verbatim>\<open>int\<close>, and the replacer raises: the tag is
  neither replaced nor returned.
\<close>

lemma overlong_length_raises:
  assumes "list_all is_digit ds" and "length ds > int_max_str_digits"
  shows "dynamic_tag_replacer_func env ctx (''{{[bndn_'' @ ds @ '']}}'') st = (None, st)"
proof -
  obtain d ds' where c: "ds = d # ds'"
    using assms(2) by (cases ds) simp_all
  have d: "is_digit d" and ld: "is_digit (last ds)"
    using assms(1) c by (auto simp: list_all_iff)
  have content: "tag_content (''{{[bndn_'' @ ds @ '']}}'') = Some (''bndn_'' @ ds)"
    using tag_close_digits [OF assms(1)] by (simp add: tag_content_def)
  have "last (''bndn_'' @ ds) = last ds" using c by simp
  then have strip: "py_strip (''bndn_'' @ ds) = ''bndn_'' @ ds"
    using digit_facts(3) [OF ld] by (intro py_strip_unpadded) (simp_all add: py_isspace_def)
  have m: "var_len_tag_match (''bndn_'' @ ds) = Some (''bnd'', ''n'', ds)"
    using assms(1) c by (intro var_len_bndn) simp_all
  have i: "py_int ds = None" using assms(2) by (simp add: py_int_def)
  have nt: "''{{[bndn_'' @ ds @ '']}}'' \<noteq> ''#{{[token]}}''" by simp
  show ?thesis
    unfolding dynamic_tag_replacer_func_def
    by (simp only: nt content strip m i if_False option.case prod.case Let_def)
       (simp add: c)
qed

text \<open>
  C6, as stated, fails: \<open>rndnn_5\<close> is not of the claimed family (\<open>nn\<close> is not one of
  n, a, l, u, s, lu, ln, un), yet the regular expression accepts any one or two characters of
  \<open>nalus\<close> and \<^verbatim>\<open>generate_random_string\<close> falls back to the alphanumeric set; the content
  is stripped before it is compared, so \<^verbatim>\<open>{{[ date ]}}\<close> is replaced too; and a length of
  4301 digits, which is not a length from 1 to 1024, makes the replacer raise.
\<close>

theorem unlisted_charset_and_padded_name_are_replaced:
  "\<not> claimed_generator ''rndnn_5'' \<and>
   fst (dynamic_tag_replacer_func demo_env [] ''{{[rndnn_5]}}'' new_resolver_state) =
     Some ''abcde'' \<and>
   \<not> claimed_generator '' date '' \<and>
   fst (dynamic_tag_replacer_func demo_env [] ''{{[ date ]}}'' new_resolver_state) =
     Some ''2025-01-01 00:00:00'' \<and>
   \<not> claimed_generator (''bndn_'' @ replicate 4301 CHR ''1'') \<and>
   fst (dynamic_tag_replacer_func demo_env []
          (''{{[bndn_'' @ replicate 4301 CHR ''1'' @ '']}}'') new_resolver_state) = None"
proof -
  have dg: "list_all is_digit (replicate 4301 CHR ''1'')"
    by (simp add: list_all_iff is_digit_def digits_def)
  have long: "length (replicate 4301 CHR ''1'') > int_max_str_digits"
    by (simp add: int_max_str_digits_def)
  have ne: "replicate 4301 CHR ''1'' \<noteq> []" by simp
  have nv: "\<not> valid_length (replicate 4301 CHR ''1'')"
    using long by (simp add: valid_length_def py_int_def)
  have nn: "''bndn_'' @ replicate 4301 CHR ''1'' \<notin> set generator_names"
    by (simp add: generator_names_def)
  have a: "\<not> claimed_generator (''bndn_'' @ replicate 4301 CHR ''1'')"
    unfolding claimed_generator_def var_len_bndn [OF dg ne]
    using nv nn by simp
  have b: "fst (dynamic_tag_replacer_func demo_env []
          (''{{[bndn_'' @ replicate 4301 CHR ''1'' @ '']}}'') new_resolver_state) = None"
    unfolding overlong_length_raises [OF dg long] by simp
  have c: "\<not> claimed_generator ''rndnn_5'' \<and>
   fst (dynamic_tag_replacer_func demo_env [] ''{{[rndnn_5]}}'' new_resolver_state) =
     Some ''abcde'' \<and>
   \<not> claimed_generator '' date '' \<and>
   fst (dynamic_tag_replacer_func demo_env [] ''{{[ date ]}}'' new_resolver_state) =
     Some ''2025-01-01 00:00:00''"
    by (simp add: tag_eval demo_env_def new_resolver_state_def fresh_random_def
        generate_random_string_def CHAR_SETS_def random_choice_def ascii_lowercase_def
        ascii_uppercase_def upt_rec)
  show ?thesis using a b c by blast
qed

subsection \<open>Boundary tags and the spintax pass\<close>

text \<open>
  What the cache does for the tag pass: the value returned for a boundary tag is the value
  the cache holds afterwards, and a value that the cache holds is returned as it is, with the
  state unchanged.
\<close>

lemma cached_value_is_reused:
  "boundary_tag_cache (snd (cached_or_generated env t len cs st)) t =
     Some (fst (cached_or_generated env t len cs st))"
  "boundary_tag_cache st t = Some v \<Longrightarrow> cached_or_generated env t len cs st = (v, st)"
  by (simp_all add: cached_or_generated_def split: option.splits prod.splits)

text \<open>
  C5 fails on the code. The tag pass replaces every occurrence of the boundary tag of
  \<open>symbol_job\<close> by the value that the cache of the job holds for it. But every field then
  goes through the spintax pass, which takes a value drawn from the symbols for a choice
  when it has the form of one, and chooses anew in every field: the subject of the job and
  its HTML body, both the same boundary tag, come out different.
\<close>

theorem boundary_value_rewritten_by_spintax:
  "fst (resolve_all_placeholders_and_tags symbol_env ''{{[bnds_5]}}'' [] [] new_resolver_state) =
     Some ''{!|@}'' \<and>
   boundary_tag_cache (snd symbol_job) ''{{[bnds_5]}}'' = Some ''{!|@}'' \<and>
   map_option subject (fst symbol_job) = Some ''!'' \<and>
   map_option htmlBody (fst symbol_job) = Some (Some ''@'')"
  by code_simp

subsection \<open>Admission to the campaign queue\<close>

lemma admitted_admit:
  assumes "admitted_since q0 p"
  shows "admitted_since q0 (admit_prepared_job row_num prepared p)"
proof (cases prepared)
  case None
  then show ?thesis using assms by (simp add: admit_prepared_job_def admitted_since_def)
next
  case (Some job)
  have le: "length q0 \<le> length (queue p)"
    using assms by (simp add: admitted_since_def)
  show ?thesis
    using assms Some le
    by (simp add: admit_prepared_job_def admitted_since_def)
qed

lemma admitted_fields:
  "admitted_since q0 (p\<lparr>messages := m\<rparr>) = admitted_since q0 p"
  "admitted_since q0 (p\<lparr>resolver := r\<rparr>) = admitted_since q0 p"
  "admitted_since q0 (p\<lparr>rows_with_data := n\<rparr>) = admitted_since q0 p"
  "admitted_since q0 (p\<lparr>halted := h\<rparr>) = admitted_since q0 p"
  by (simp_all add: admitted_since_def)

lemma admitted_prepare_row:
  assumes "admitted_since q0 p"
  shows "admitted_since q0 (prepare_row env inputs row_num row p)"
  using assms
  by (auto simp: prepare_row_def Let_def admitted_fields split: prod.splits option.splits
           intro!: admitted_admit)

lemma admitted_prepare_rows:
  "admitted_since q0 p \<Longrightarrow> admitted_since q0 (prepare_rows env inputs row_num rows p)"
  by (induction rows arbitrary: row_num p) (simp_all add: admitted_prepare_row Let_def)

lemma admitted_prepare_single:
  assumes "admitted_since q0 p"
  shows "admitted_since q0 (prepare_single env inputs p)"
  using assms
  by (auto simp: prepare_single_def Let_def admitted_fields split: prod.splits
           intro!: admitted_admit)

lemma list_all_slice: "list_all P xs \<Longrightarrow> list_all P (take n (drop m xs))"
  by (metis append_take_drop_id list_all_append)

lemma kept_process_events:
  assumes "recipients_kept s"
    and "\<forall>handler\<in>set pending. \<forall>x. recipients_kept x \<longrightarrow> recipients_kept (handler x)"
  shows "recipients_kept (process_events pending k s)"
  using assms by (simp add: process_events_def)

lemma kept_fields:
  "recipients_kept (s\<lparr>queue_processing_active := a\<rparr>) = recipients_kept s"
  "recipients_kept (s\<lparr>is_paused_flag := b\<rparr>) = recipients_kept s"
  "recipients_kept (s\<lparr>overall_processing_end_time := t\<rparr>) = recipients_kept s"
  "recipients_kept (s\<lparr>current_job_index_for_dispatch := c\<rparr>) = recipients_kept s"
  "recipients_kept (s\<lparr>active_batch_send_workers := ws\<rparr>) = recipients_kept s"
  "recipients_kept (s\<lparr>next_worker := n\<rparr>) = recipients_kept s"
  by (simp_all add: recipients_kept_def batches_have_recipients_def)

lemma dispatch_has_recipients:
  assumes "recipients_kept s"
    and "\<forall>handler\<in>set pending. \<forall>x. recipients_kept x \<longrightarrow> recipients_kept (handler x)"
  shows "recipients_kept (dispatch_next_email_batch_to_worker pending now s)"
proof -
  have fin: "recipients_kept (finalize_overall_queue_processing pending now s)"
    unfolding finalize_overall_queue_processing_def
    by (rule kept_process_events [OF _ assms(2)]) (simp add: kept_fields assms(1))
  have started: "recipients_kept
       (s\<lparr>active_batch_send_workers := ws,
           started_batches := started_batches s @
             [(w, c, take n (drop m (email_job_queue s)))],
           next_worker := k\<rparr>)" for ws w c n m k
    using assms(1) list_all_slice [of has_recipients "email_job_queue s" n m]
    by (simp add: recipients_kept_def batches_have_recipients_def)
  show ?thesis
    unfolding dispatch_next_email_batch_to_worker_def Let_def
    using assms(1) fin kept_process_events [OF started assms(2)]
    by (simp add: kept_fields)
qed

text \<open>
  C8. \<^verbatim>\<open>action_prepare_campaign_and_add_to_queue\<close> only appends to the campaign queue; the
  number of jobs it appends is its prepared-jobs count; every job it appends has a non-empty
  final recipient list; a prepared job whose final recipient list is empty is not enqueued
  and not counted, only a warning is logged; and a dispatch from a queue whose jobs all have
  recipients hands only such jobs to a worker, also when other handlers that keep this
  property run while the dispatch logs, so a job without recipients reaches no transport
  function.
\<close>

theorem only_jobs_with_recipients_enqueued:
  "take (length (email_job_queue s))
     (email_job_queue (action_prepare_campaign_and_add_to_queue env inputs data_rows st s)) =
     email_job_queue s \<and>
   length (email_job_queue (action_prepare_campaign_and_add_to_queue env inputs data_rows st s)) =
     length (email_job_queue s) +
     prepared_jobs_count_this_action
       (prepare_campaign env inputs data_rows (email_job_queue s) st) \<and>
   list_all has_recipients
     (drop (length (email_job_queue s))
        (email_job_queue (action_prepare_campaign_and_add_to_queue env inputs data_rows st s))) \<and>
   admit_prepared_job row_num (Some (job\<lparr>recipients_to_list := []\<rparr>)) p =
     p\<lparr>messages := messages p @ [FinalRecipientListEmpty row_num]\<rparr> \<and>
   (recipients_kept s' \<and>
    (\<forall>handler\<in>set pending. \<forall>x. recipients_kept x \<longrightarrow> recipients_kept (handler x)) \<longrightarrow>
    recipients_kept (dispatch_next_email_batch_to_worker pending now s'))"
proof -
  have "admitted_since (email_job_queue s)
          \<lparr>queue = email_job_queue s, prepared_jobs_count_this_action = 0,
           rows_with_data = 0, messages = [], resolver = st, halted = False\<rparr>"
    by (simp add: admitted_since_def)
  then have "admitted_since (email_job_queue s)
               (prepare_campaign env inputs data_rows (email_job_queue s) st)"
    by (cases data_rows)
       (simp_all add: prepare_campaign_def admitted_prepare_rows admitted_prepare_single)
  then have adm: "take (length (email_job_queue s))
       (queue (prepare_campaign env inputs data_rows (email_job_queue s) st)) = email_job_queue s"
    "length (queue (prepare_campaign env inputs data_rows (email_job_queue s) st)) =
       length (email_job_queue s) +
       prepared_jobs_count_this_action
         (prepare_campaign env inputs data_rows (email_job_queue s) st)"
    "list_all has_recipients (drop (length (email_job_queue s))
       (queue (prepare_campaign env inputs data_rows (email_job_queue s) st)))"
    by (simp_all add: admitted_since_def has_recipients_def [abs_def])
  have rej: "admit_prepared_job row_num (Some (job\<lparr>recipients_to_list := []\<rparr>)) p =
     p\<lparr>messages := messages p @ [FinalRecipientListEmpty row_num]\<rparr>"
    by (simp add: admit_prepared_job_def)
  show ?thesis
    using adm rej dispatch_has_recipients [of s' pending now]
    by (simp add: action_prepare_campaign_and_add_to_queue_def)
qed

lemmas resolve_eval = create_fully_prepared_email_job_def resolve_main_fields_def
  resolve_headers_of_job_def apply_custom_headers_def header_get_def resolve_optional_def
  resolve_and_spin_def resolve_all_placeholders_and_tags_def process_spintax_in_text_def
  sender_context_def dict_get_def

lemma demo_prepared:
  "prepare_campaign demo_mail_env demo_inputs (Some demo_rows) [] new_resolver_state =
     \<lparr>queue = [\<lparr>job_id = ''123e4567-e89b-42d3-a456-426614174000'',
                 recipients_to_list = [''a@x.org''], subject = ''Hello'',
                 htmlBody = None, plainBody = Some ''Dear customer'',
                 status = ''Prepared'', all_custom_headers = [(''To'', [])]\<rparr>],
      prepared_jobs_count_this_action = 1, rows_with_data = 2,
      messages = [EmptyRowSkipped 2, FinalRecipientListEmpty 3],
      resolver = \<lparr>draws = 0, uuids = 2, boundary_tag_cache = Map.empty\<rparr>,
      halted = False\<rparr>"
  by (simp add: prepare_campaign_def prepare_row_def admit_prepared_job_def demo_mail_env_def
      demo_inputs_def demo_rows_def demo_sender_def demo_env_def new_resolver_state_def
      resolve_eval tag_eval)

text \<open>
  Three data rows: one with an address, one blank, one whose To field and custom To header
  resolve to nothing. One job is enqueued and counted; the other rows are only logged. A
  dispatch inside whose log another dispatch runs hands the job to two workers, with its
  recipient.
\<close>

theorem only_jobs_with_recipients_enqueued_witness:
  "map recipients_to_list
     (email_job_queue (action_prepare_campaign_and_add_to_queue demo_mail_env demo_inputs
        (Some demo_rows) new_resolver_state (new_mailer_app 1 2))) = [[''a@x.org'']] \<and>
   prepared_jobs_count_this_action
     (prepare_campaign demo_mail_env demo_inputs (Some demo_rows) [] new_resolver_state) = 1 \<and>
   messages (prepare_campaign demo_mail_env demo_inputs (Some demo_rows) [] new_resolver_state) =
     [EmptyRowSkipped 2, FinalRecipientListEmpty 3] \<and>
   list_all has_recipients
     (email_job_queue (action_prepare_campaign_and_add_to_queue demo_mail_env demo_inputs
        (Some demo_rows) new_resolver_state (new_mailer_app 1 2))) \<and>
   recipients_kept demo_ready \<and>
   map (map recipients_to_list \<circ> snd \<circ> snd)
     (started_batches
        (dispatch_next_email_batch_to_worker [dispatch_next_email_batch_to_worker [] 1] 0
           demo_ready)) = [[[''a@x.org'']], [[''a@x.org'']]] \<and>
   recipients_kept
     (dispatch_next_email_batch_to_worker [dispatch_next_email_batch_to_worker [] 1] 0
        demo_ready)"
proof -
  have q0: "\<And>m k. email_job_queue (new_mailer_app m k :: email_job mailer_app) = []"
    by (simp add: new_mailer_app_def)
  note inst = only_jobs_with_recipients_enqueued
      [of "new_mailer_app 1 2" demo_mail_env demo_inputs "Some demo_rows" new_resolver_state
          _ _ _ demo_ready "[dispatch_next_email_batch_to_worker [] 1]" 0]
  have l: "list_all has_recipients
     (drop (length (email_job_queue (new_mailer_app 1 2 :: email_job mailer_app)))
       (email_job_queue (action_prepare_campaign_and_add_to_queue demo_mail_env demo_inputs
          (Some demo_rows) new_resolver_state (new_mailer_app 1 2))))"
    using inst by blast
  have v: "email_job_queue (action_prepare_campaign_and_add_to_queue demo_mail_env demo_inputs
        (Some demo_rows) new_resolver_state (new_mailer_app 1 2)) =
        queue (prepare_campaign demo_mail_env demo_inputs (Some demo_rows) [] new_resolver_state)"
    by (simp add: action_prepare_campaign_and_add_to_queue_def q0)
  have ready: "demo_ready =
     (new_mailer_app 1 2)\<lparr>email_job_queue :=
        queue (prepare_campaign demo_mail_env demo_inputs (Some demo_rows) []
                 new_resolver_state),
        queue_processing_active := True\<rparr>"
    by (simp add: demo_ready_def action_prepare_campaign_and_add_to_queue_def q0)
  have k: "recipients_kept demo_ready"
    unfolding ready demo_prepared
    by (simp add: recipients_kept_def batches_have_recipients_def has_recipients_def
        new_mailer_app_def)
  have frame: "\<forall>handler\<in>set [dispatch_next_email_batch_to_worker [] 1].
                 \<forall>x. recipients_kept x \<longrightarrow> recipients_kept (handler x)"
    by (simp add: dispatch_has_recipients)
  have d: "recipients_kept
     (dispatch_next_email_batch_to_worker [dispatch_next_email_batch_to_worker [] 1] 0
        demo_ready)"
    using inst k frame by blast
  have b: "map (map recipients_to_list \<circ> snd \<circ> snd)
     (started_batches
        (dispatch_next_email_batch_to_worker [dispatch_next_email_batch_to_worker [] 1] 0
           demo_ready)) = [[[''a@x.org'']], [[''a@x.org'']]]"
    unfolding ready demo_prepared
    by (simp add: dispatch_next_email_batch_to_worker_def process_events_def new_mailer_app_def
        Let_def)
  show ?thesis
    using l k d b unfolding q0 v demo_prepared by simp
qed

end
